theory Spec2Isabelle
  imports Main "HOL-Library.Sublist" "HOL-Library.AList"
begin

section \<open>JavaScript strings\<close>

text \<open>
  A JavaScript string is a sequence of code units. The model uses \<^typ>\<open>string\<close>: its
  characters are the code units 0 to 255, and every string function below is the
  JavaScript one on that range.
\<close>

text \<open>
  The white space of \<^verbatim>\<open>String.prototype.trim\<close> and of the regular expression class
  \<^verbatim>\<open>\s\<close>: TAB, LF, VT, FF, CR, SPACE and NO-BREAK SPACE.
\<close>

definition isWhiteSpace :: "char \<Rightarrow> bool" where
  "isWhiteSpace c = (c \<in> set [CHR 0x09, CHR 0x0A, CHR 0x0B, CHR 0x0C, CHR 0x0D, CHR 0x20, CHR 0xA0])"

definition trim :: "string \<Rightarrow> string" where
  "trim s = rev (dropWhile isWhiteSpace (rev (dropWhile isWhiteSpace s)))"

definition startsWith :: "string \<Rightarrow> string \<Rightarrow> bool" where
  "startsWith s p = (take (length p) s = p)"

definition endsWith :: "string \<Rightarrow> string \<Rightarrow> bool" where
  "endsWith s p = (length p \<le> length s \<and> drop (length s - length p) s = p)"

definition slice :: "string \<Rightarrow> nat \<Rightarrow> string" where
  "slice s n = drop n s"

text \<open>
  \<^verbatim>\<open>String.prototype.toLowerCase\<close> on the code units 0 to 255: the letters A to Z and
  the capital letters of Latin-1 (0xC0 to 0xDE without the multiplication sign 0xD7)
  move up by 32.
\<close>

definition toLowerCaseChar :: "char \<Rightarrow> char" where
  "toLowerCaseChar c =
     (let n = (of_char c :: nat)
      in if (65 \<le> n \<and> n \<le> 90) \<or> (192 \<le> n \<and> n \<le> 222 \<and> n \<noteq> 215) then char_of (n + 32) else c)"

definition toLowerCase :: "string \<Rightarrow> string" where
  "toLowerCase s = map toLowerCaseChar s"

text \<open>The decimal text of an integer, as a template literal prints an exit code.\<close>

fun showNat :: "nat \<Rightarrow> string" where
  "showNat n = (if n < 10 then [''0123456789'' ! n] else showNat (n div 10) @ [''0123456789'' ! (n mod 10)])"

definition showInt :: "int \<Rightarrow> string" where
  "showInt i = (if i < 0 then ''-'' @ showNat (nat (- i)) else showNat (nat i))"

section \<open>Regular expressions\<close>

text \<open>
  The regular expressions of the router use character classes, sequence, alternation,
  greedy repetition and the end anchor. \<open>matches r s\<close> lists what is left of \<open>s\<close> after
  each way \<open>r\<close> can match at its start, in the order a backtracking matcher tries them
  (the left alternative first, the longer repetition first); the first one is the match
  JavaScript reports. A repetition does not iterate over an empty match.
\<close>

datatype regex =
    Cls "char \<Rightarrow> bool"
  | Eps
  | Seq regex regex
  | Alt regex regex
  | Star regex
  | AtEnd

function matches :: "regex \<Rightarrow> string \<Rightarrow> string list" where
  "matches (Cls p) s = (case s of [] \<Rightarrow> [] | c # cs \<Rightarrow> if p c then [cs] else [])"
| "matches Eps s = [s]"
| "matches (Seq a b) s = concat (map (matches b) (matches a s))"
| "matches (Alt a b) s = matches a s @ matches b s"
| "matches (Star a) s =
     concat (map (\<lambda>rest. if length rest < length s then matches (Star a) rest else [])
                 (matches a s)) @ [s]"
| "matches AtEnd s = (if s = [] then [[]] else [])"
  by pat_completeness auto
termination
  by (relation "measure size <*lex*> measure length") auto

definition firstMatch :: "regex \<Rightarrow> string \<Rightarrow> string option" where
  "firstMatch r s = (case matches r s of [] \<Rightarrow> None | rest # _ \<Rightarrow> Some rest)"

text \<open>
  \<^verbatim>\<open>s.replace(r, "")\<close> for a regular expression with the \<^verbatim>\<open>g\<close> flag (every match,
  left to right, without overlap) and without it (the leftmost match only), and
  \<^verbatim>\<open>s.match(r)\<close> with the \<^verbatim>\<open>g\<close> flag (the matched texts; JavaScript returns
  \<^verbatim>\<open>null\<close> for the empty list).
\<close>

fun stripAll :: "regex \<Rightarrow> string \<Rightarrow> string" where
  "stripAll r [] = []"
| "stripAll r (c # cs) =
     (case firstMatch r (c # cs) of
        None \<Rightarrow> c # stripAll r cs
      | Some rest \<Rightarrow>
          if length rest < Suc (length cs) then stripAll r rest else c # stripAll r cs)"

fun stripFirst :: "regex \<Rightarrow> string \<Rightarrow> string" where
  "stripFirst r [] = []"
| "stripFirst r (c # cs) =
     (case firstMatch r (c # cs) of
        None \<Rightarrow> c # stripFirst r cs
      | Some rest \<Rightarrow> rest)"

fun matchAll :: "regex \<Rightarrow> string \<Rightarrow> string list" where
  "matchAll r [] = []"
| "matchAll r (c # cs) =
     (case firstMatch r (c # cs) of
        None \<Rightarrow> matchAll r cs
      | Some rest \<Rightarrow>
          if length rest < Suc (length cs)
          then take (Suc (length cs) - length rest) (c # cs) # matchAll r rest
          else matchAll r cs)"

definition lit :: "char \<Rightarrow> regex" where
  "lit c = Cls (\<lambda>x. x = c)"

definition between :: "nat \<Rightarrow> nat \<Rightarrow> regex" where
  "between lo hi = Cls (\<lambda>x. lo \<le> of_char x \<and> of_char x \<le> hi)"

definition OneOrMore :: "regex \<Rightarrow> regex" where
  "OneOrMore r = Seq r (Star r)"

definition Optional :: "regex \<Rightarrow> regex" where
  "Optional r = Alt r Eps"

text \<open>\<^verbatim>\<open>/https?:\/\/[^\s]+/g\<close>\<close>

definition URL_CANDIDATE_REGEX :: regex where
  "URL_CANDIDATE_REGEX =
     Seq (lit CHR ''h'') (Seq (lit CHR ''t'') (Seq (lit CHR ''t'') (Seq (lit CHR ''p'')
       (Seq (Optional (lit CHR ''s'')) (Seq (lit CHR '':'') (Seq (lit CHR ''/'') (Seq (lit CHR ''/'')
         (OneOrMore (Cls (\<lambda>x. \<not> isWhiteSpace x))))))))))"

text \<open>\<^verbatim>\<open>/\u001B\[[0-?]*[ -/]*[@-~]/g\<close>\<close>

definition ANSI_ESCAPE_REGEX :: regex where
  "ANSI_ESCAPE_REGEX =
     Seq (lit (CHR 0x1B)) (Seq (lit CHR ''['')
       (Seq (Star (between 0x30 0x3F)) (Seq (Star (between 0x20 0x2F)) (between 0x40 0x7E))))"

text \<open>\<^verbatim>\<open>/\u001B\][^\u0007]*(?:\u0007|\u001B\\)/g\<close>\<close>

definition ANSI_OSC_REGEX :: regex where
  "ANSI_OSC_REGEX =
     Seq (lit (CHR 0x1B)) (Seq (lit CHR '']'')
       (Seq (Star (Cls (\<lambda>x. x \<noteq> CHR 0x07)))
            (Alt (lit (CHR 0x07)) (Seq (lit (CHR 0x1B)) (lit (CHR 0x5C))))))"

text \<open>\<^verbatim>\<open>/[),.;!?]+$/\<close>\<close>

definition TRAILING_PUNCTUATION_REGEX :: regex where
  "TRAILING_PUNCTUATION_REGEX = Seq (OneOrMore (Cls (\<lambda>x. x \<in> set ''),.;!?''))) AtEnd"

definition stripAnsi :: "string \<Rightarrow> string" where
  "stripAnsi input = stripAll ANSI_ESCAPE_REGEX (stripAll ANSI_OSC_REGEX input)"

definition isLocalhostHostname :: "string \<Rightarrow> bool" where
  "isLocalhostHostname hostname' =
     (let normalized = toLowerCase (trim hostname')
      in normalized = ''localhost'' \<or> normalized = ''127.0.0.1'' \<or> normalized = ''::1''
         \<or> normalized = ''[::1]'' \<or> endsWith normalized ''.localhost'')"

section \<open>Model names\<close>

record AuthConfig =
  apiKey :: string

definition DEFAULT_CODEX_MODEL :: string where
  "DEFAULT_CODEX_MODEL = ''gpt-5.3-codex/high''"

text \<open>\<^verbatim>\<open>Boolean(params.authConfig?.apiKey?.trim())\<close>: a key is there and is not blank.\<close>

definition hasAppManagedApiKey :: "AuthConfig option \<Rightarrow> bool" where
  "hasAppManagedApiKey authConfig =
     (case authConfig of None \<Rightarrow> False | Some a \<Rightarrow> trim (apiKey a) \<noteq> [])"

definition extractCodexModelId :: "string option \<Rightarrow> string option" where
  "extractCodexModelId rawModel =
     (case rawModel of
        None \<Rightarrow> None
      | Some m \<Rightarrow>
          if length m = 0 then None
          else let normalizedModel = trim m
               in if normalizedModel = [] \<or> normalizedModel = ''codex'' then None
                  else Some normalizedModel)"

definition supportedThinkingLevels :: "string list" where
  "supportedThinkingLevels = [''low'', ''medium'', ''high'', ''xhigh'']"

definition preprocessCodexModelName :: "string \<Rightarrow> AuthConfig option \<Rightarrow> string" where
  "preprocessCodexModelName modelId authConfig =
     (if \<not> hasAppManagedApiKey authConfig then modelId
      else if modelId = ''gpt-5.3-codex'' then ''gpt-5.2-codex/high''
      else let gpt53Prefix = ''gpt-5.3-codex/'' in
        if startsWith modelId gpt53Prefix then
          (let requestedThinking = slice modelId (length gpt53Prefix);
               normalizedThinking =
                 (if requestedThinking \<in> set supportedThinkingLevels
                  then requestedThinking else ''high'')
           in ''gpt-5.2-codex/'' @ normalizedThinking)
        else modelId)"

text \<open>The model id the chat subscription selects for a request.\<close>

definition selectedModelId :: "string option \<Rightarrow> AuthConfig option \<Rightarrow> string" where
  "selectedModelId model authConfig =
     preprocessCodexModelName
       (case extractCodexModelId model of None \<Rightarrow> DEFAULT_CODEX_MODEL | Some m \<Rightarrow> m)
       authConfig"

section \<open>Errors and the platform\<close>

text \<open>Every \<^verbatim>\<open>throw\<close> of the router is a value of this type.\<close>

datatype thrown =
    UnsupportedPlatform string string
  | ModuleNotFound string
  | BundledCliNotFound string
  | LoginSessionNotFound
  | UnhandledChildError string

text \<open>
  What the router reads from Node and Electron: \<^verbatim>\<open>process.platform\<close>,
  \<^verbatim>\<open>process.arch\<close>, \<^verbatim>\<open>path.sep\<close>, \<^verbatim>\<open>require.resolve\<close> (\<open>None\<close> when it throws;
  the second argument is the \<^verbatim>\<open>paths\<close> root, when one is given), \<^verbatim>\<open>path.dirname\<close>,
  \<^verbatim>\<open>fs.existsSync\<close>, the string entries of \<^verbatim>\<open>process.env\<close>, the SHA-256 hex digest of
  \<^verbatim>\<open>node:crypto\<close>, the path where the bundled Codex CLI is looked up (the
  \<^verbatim>\<open>path.join\<close> of the resources directory and the binary name), and the WHATWG URL
  parser \<^verbatim>\<open>new URL(text)\<close> (\<open>None\<close> when it throws), of which the router reads
  \<^verbatim>\<open>hostname\<close> and \<^verbatim>\<open>toString()\<close>, the serialised \<^verbatim>\<open>href\<close>.
\<close>

record URL =
  hostname :: string
  href :: string

record Platform =
  platform :: string
  arch :: string
  sep :: string
  requireResolve :: "string \<Rightarrow> string option \<Rightarrow> string option"
  dirname :: "string \<Rightarrow> string"
  existsSync :: "string \<Rightarrow> bool"
  processEnv :: "string \<rightharpoonup> string"
  sha256hex :: "string \<Rightarrow> string"
  bundledCliPath :: string
  parseUrl :: "string \<Rightarrow> URL option"

definition getCodexPackageName :: "Platform \<Rightarrow> thrown + string" where
  "getCodexPackageName P =
     (if platform P = ''darwin'' \<and> arch P = ''arm64'' then Inr ''@zed-industries/codex-acp-darwin-arm64''
      else if platform P = ''darwin'' \<and> arch P = ''x64'' then Inr ''@zed-industries/codex-acp-darwin-x64''
      else if platform P = ''linux'' \<and> arch P = ''arm64'' then Inr ''@zed-industries/codex-acp-linux-arm64''
      else if platform P = ''linux'' \<and> arch P = ''x64'' then Inr ''@zed-industries/codex-acp-linux-x64''
      else if platform P = ''win32'' \<and> arch P = ''arm64'' then Inr ''@zed-industries/codex-acp-win32-arm64''
      else if platform P = ''win32'' \<and> arch P = ''x64'' then Inr ''@zed-industries/codex-acp-win32-x64''
      else Inl (UnsupportedPlatform (platform P) (arch P)))"

text \<open>
  \<^verbatim>\<open>String.prototype.replace\<close> with a string pattern: the first occurrence only. The
  replacement strings of the router hold no \<^verbatim>\<open>$\<close>, so none of its patterns apply.
\<close>

fun replaceFirst :: "string \<Rightarrow> string \<Rightarrow> string \<Rightarrow> string" where
  "replaceFirst pat rep [] = (if pat = [] then rep else [])"
| "replaceFirst pat rep (c # cs) =
     (if startsWith (c # cs) pat then rep @ drop (length pat) (c # cs)
      else c # replaceFirst pat rep cs)"

definition toUnpackedAsarPath :: "Platform \<Rightarrow> string \<Rightarrow> string" where
  "toUnpackedAsarPath P filePath =
     (let unpackedPath =
        replaceFirst (sep P @ ''app.asar'' @ sep P) (sep P @ ''app.asar.unpacked'' @ sep P) filePath
      in if unpackedPath \<noteq> filePath \<and> existsSync P unpackedPath then unpackedPath else filePath)"

definition resolveCodexAcpBinaryPath :: "Platform \<Rightarrow> thrown + string" where
  "resolveCodexAcpBinaryPath P =
     (case getCodexPackageName P of
        Inl e \<Rightarrow> Inl e
      | Inr packageName \<Rightarrow>
          let binaryName = (if platform P = ''win32'' then ''codex-acp.exe'' else ''codex-acp'') in
          case requireResolve P ''@zed-industries/codex-acp/package.json'' None of
            None \<Rightarrow> Inl (ModuleNotFound ''@zed-industries/codex-acp/package.json'')
          | Some pkgJson \<Rightarrow>
              let codexPackageRoot = dirname P pkgJson in
              case requireResolve P (packageName @ ''/bin/'' @ binaryName) (Some codexPackageRoot) of
                None \<Rightarrow> Inl (ModuleNotFound (packageName @ ''/bin/'' @ binaryName))
              | Some resolvedPath \<Rightarrow> Inr (toUnpackedAsarPath P resolvedPath))"

section \<open>Provider sessions and active streams\<close>

definition getAuthFingerprint :: "Platform \<Rightarrow> AuthConfig option \<Rightarrow> string option" where
  "getAuthFingerprint P authConfig =
     (case authConfig of
        None \<Rightarrow> None
      | Some a \<Rightarrow> let k = trim (apiKey a) in if k = [] then None else Some (sha256hex P k))"

definition buildCodexProviderEnv :: "Platform \<Rightarrow> AuthConfig option \<Rightarrow> (string \<rightharpoonup> string)" where
  "buildCodexProviderEnv P authConfig =
     (case authConfig of
        None \<Rightarrow> processEnv P
      | Some a \<Rightarrow> let k = trim (apiKey a) in
          if k = [] then processEnv P else (processEnv P)(''CODEX_API_KEY'' \<mapsto> k))"

definition getCodexAuthMethodId :: "AuthConfig option \<Rightarrow> string option" where
  "getCodexAuthMethodId authConfig =
     (case authConfig of
        None \<Rightarrow> None
      | Some a \<Rightarrow> if trim (apiKey a) = [] then None else Some ''codex-api-key'')"

text \<open>
  An ACP provider is an object of a library: the model keeps, for each one created, the
  options \<^verbatim>\<open>createACPProvider\<close> received. A provider is named by its index in the list
  of the providers created so far, and \<^verbatim>\<open>provider.cleanup()\<close> is logged.
\<close>

record ACPProviderOptions =
  command :: string
  env :: "string \<rightharpoonup> string"
  authMethodId :: "string option"
  sessionCwd :: string
  existingSessionId :: "string option"

record CodexProviderSession =
  provider :: nat
  cwd :: string
  authFingerprint :: "string option"

text \<open>An abort controller is named by a number; \<open>aborted\<close> holds those whose signal is aborted.\<close>

record ActiveCodexStream =
  runId :: string
  controller :: nat

record ChatState =
  providerSessions :: "string \<rightharpoonup> CodexProviderSession"
  activeStreams :: "string \<rightharpoonup> ActiveCodexStream"
  created :: "ACPProviderOptions list"
  cleanedUp :: "nat list"
  nextController :: nat
  aborted :: "nat set"

definition initialChatState :: ChatState where
  "initialChatState =
     \<lparr>providerSessions = Map.empty, activeStreams = Map.empty, created = [], cleanedUp = [],
      nextController = 0, aborted = {}\<rparr>"

definition abort :: "nat \<Rightarrow> ChatState \<Rightarrow> ChatState" where
  "abort c st = st\<lparr>aborted := insert c (aborted st)\<rparr>"

definition cleanupProvider :: "string \<Rightarrow> ChatState \<Rightarrow> ChatState" where
  "cleanupProvider subChatId st =
     (case providerSessions st subChatId of
        None \<Rightarrow> st
      | Some existing \<Rightarrow>
          st\<lparr>cleanedUp := cleanedUp st @ [provider existing],
             providerSessions := (providerSessions st)(subChatId := None)\<rparr>)"

definition getOrCreateProvider ::
  "Platform \<Rightarrow> string \<Rightarrow> string \<Rightarrow> string option \<Rightarrow> AuthConfig option \<Rightarrow> ChatState
     \<Rightarrow> (thrown + nat) \<times> ChatState" where
  "getOrCreateProvider P subChatId cwd' existingSessionId' authConfig st =
     (let fingerprint = getAuthFingerprint P authConfig;
          existing = providerSessions st subChatId
      in case (case existing of
                 None \<Rightarrow> None
               | Some e \<Rightarrow>
                   if cwd e = cwd' \<and> authFingerprint e = fingerprint then Some (provider e)
                   else None) of
           Some reused \<Rightarrow> (Inr reused, st)
         | None \<Rightarrow>
           let st1 = (case existing of
                        None \<Rightarrow> st
                      | Some e \<Rightarrow>
                          st\<lparr>cleanedUp := cleanedUp st @ [provider e],
                             providerSessions := (providerSessions st)(subChatId := None)\<rparr>);
               existingSessionIdForProvider =
                 (if hasAppManagedApiKey authConfig then None else existingSessionId')
           in case resolveCodexAcpBinaryPath P of
                Inl e \<Rightarrow> (Inl e, st1)
              | Inr binary \<Rightarrow>
                  let options =
                        \<lparr>command = binary,
                         env = buildCodexProviderEnv P authConfig,
                         authMethodId = getCodexAuthMethodId authConfig,
                         sessionCwd = cwd',
                         existingSessionId =
                           (case existingSessionIdForProvider of
                              None \<Rightarrow> None
                            | Some s \<Rightarrow> if s = [] then None else Some s)\<rparr>;
                      p = length (created st1)
                  in (Inr p,
                      st1\<lparr>created := created st1 @ [options],
                          providerSessions := (providerSessions st1)
                            (subChatId \<mapsto> \<lparr>provider = p, cwd = cwd', authFingerprint = fingerprint\<rparr>)\<rparr>))"

text \<open>
  The chat subscription, as far as the two registries go. \<open>chatSubscribe\<close> is the start of
  the observable (the previous stream is superseded, then the run is registered) and
  returns the run's new abort controller; \<open>chatFinally\<close> is the \<^verbatim>\<open>finally\<close> block of
  the run; \<open>chatTeardown\<close> is the function the observable returns.
\<close>

definition chatSubscribe :: "string \<Rightarrow> string \<Rightarrow> ChatState \<Rightarrow> nat \<times> ChatState" where
  "chatSubscribe subChatId runId' st =
     (let st1 = (case activeStreams st subChatId of
                   None \<Rightarrow> st
                 | Some existingStream \<Rightarrow> cleanupProvider subChatId (abort (controller existingStream) st));
          abortController = nextController st1
      in (abortController,
          st1\<lparr>nextController := Suc (nextController st1),
              activeStreams := (activeStreams st1)
                (subChatId \<mapsto> \<lparr>runId = runId', controller = abortController\<rparr>)\<rparr>))"

definition holdsRun :: "ChatState \<Rightarrow> string \<Rightarrow> string \<Rightarrow> bool" where
  "holdsRun st subChatId runId' =
     (case activeStreams st subChatId of None \<Rightarrow> False | Some s \<Rightarrow> runId s = runId')"

definition chatFinally :: "string \<Rightarrow> string \<Rightarrow> ChatState \<Rightarrow> ChatState" where
  "chatFinally subChatId runId' st =
     (if holdsRun st subChatId runId'
      then st\<lparr>activeStreams := (activeStreams st)(subChatId := None)\<rparr> else st)"

definition chatTeardown :: "string \<Rightarrow> string \<Rightarrow> nat \<Rightarrow> ChatState \<Rightarrow> ChatState" where
  "chatTeardown subChatId runId' abortController st =
     (let st1 = abort abortController st
      in if holdsRun st1 subChatId runId'
         then st1\<lparr>activeStreams := (activeStreams st1)(subChatId := None)\<rparr> else st1)"

record CancelResult =
  cancelled :: bool
  ignoredStale :: bool

definition cancel :: "string \<Rightarrow> string \<Rightarrow> ChatState \<Rightarrow> CancelResult \<times> ChatState" where
  "cancel subChatId runId' st =
     (case activeStreams st subChatId of
        None \<Rightarrow> (\<lparr>cancelled = False, ignoredStale = False\<rparr>, st)
      | Some activeStream \<Rightarrow>
          if runId activeStream \<noteq> runId' then (\<lparr>cancelled = False, ignoredStale = True\<rparr>, st)
          else
            let st1 = cleanupProvider subChatId (abort (controller activeStream) st)
            in (\<lparr>cancelled = True, ignoredStale = False\<rparr>,
                st1\<lparr>activeStreams := (activeStreams st1)(subChatId := None)\<rparr>))"

definition cleanup :: "string \<Rightarrow> ChatState \<Rightarrow> ChatState" where
  "cleanup subChatId st =
     (let st1 = cleanupProvider subChatId st
      in case activeStreams st1 subChatId of
           None \<Rightarrow> st1
         | Some activeStream \<Rightarrow>
             (abort (controller activeStream) st1)
               \<lparr>activeStreams := (activeStreams st1)(subChatId := None)\<rparr>)"

text \<open>
  Abort controllers are allocated in order: in a well-formed state every controller that
  is registered or aborted has been allocated.
\<close>

definition wfChat :: "ChatState \<Rightarrow> bool" where
  "wfChat st \<longleftrightarrow>
     (\<forall>c \<in> aborted st. c < nextController st) \<and>
     (\<forall>sub s. activeStreams st sub = Some s \<longrightarrow> controller s < nextController st)"

text \<open>
  The platform does not change while the process runs, so the chat states that can be
  reached are those that the operations reach on one platform. On such a state, a
  provider session in the registry was created by \<open>getOrCreateProvider\<close> on that
  platform: its provider exists and the path of the codex-acp binary resolves.
\<close>

inductive reachableChat :: "Platform \<Rightarrow> ChatState \<Rightarrow> bool" for P :: Platform where
  init: "reachableChat P initialChatState"
| subscribe: "reachableChat P st \<Longrightarrow> reachableChat P (snd (chatSubscribe sub rid st))"
| finish: "reachableChat P st \<Longrightarrow> reachableChat P (chatFinally sub rid st)"
| teardown: "reachableChat P st \<Longrightarrow> c < nextController st \<Longrightarrow> reachableChat P (chatTeardown sub rid c st)"
| forceNewSession: "reachableChat P st \<Longrightarrow> reachableChat P (cleanupProvider sub st)"
| provide: "reachableChat P st \<Longrightarrow> reachableChat P (snd (getOrCreateProvider P sub d sid auth st))"
| cancelled: "reachableChat P st \<Longrightarrow> reachableChat P (snd (cancel sub rid st))"
| cleaned: "reachableChat P st \<Longrightarrow> reachableChat P (cleanup sub st)"

definition wfProviders :: "Platform \<Rightarrow> ChatState \<Rightarrow> bool" where
  "wfProviders P st \<longleftrightarrow>
     (\<forall>sub ex. providerSessions st sub = Some ex \<longrightarrow>
        provider ex < length (created st) \<and> (\<exists>bin. resolveCodexAcpBinaryPath P = Inr bin))"

text \<open>
  A run is one chat subscription: it is started for a sub-chat with a run id and is
  given an abort controller; later its \<^verbatim>\<open>finally\<close> block runs, and the observable
  may be torn down. To speak of the runs of a sub-chat, a trace keeps beside the chat
  state the runs started so far and the controllers of those whose \<^verbatim>\<open>finally\<close> block
  has run. \<open>RunEnds n\<close> and \<open>Unsubscribe n\<close> are the end and the teardown of the
  \<open>n\<close>-th run started.
\<close>

record Run =
  runSubChat :: string
  runRunId :: string
  runController :: nat

datatype ChatEvent =
    Subscribe string string
  | RunEnds nat
  | Unsubscribe nat
  | ForceNewSession string
  | Provide string string "string option" "AuthConfig option"
  | Cancel string string
  | Cleanup string

record ChatTrace =
  chat :: ChatState
  runs :: "Run list"
  ended :: "nat set"

definition initialChatTrace :: ChatTrace where
  "initialChatTrace = \<lparr>chat = initialChatState, runs = [], ended = {}\<rparr>"

fun chatStep :: "Platform \<Rightarrow> ChatEvent \<Rightarrow> ChatTrace \<Rightarrow> ChatTrace" where
  "chatStep P (Subscribe sub rid) tr =
     tr\<lparr>chat := snd (chatSubscribe sub rid (chat tr)),
        runs := runs tr @ [\<lparr>runSubChat = sub, runRunId = rid,
                            runController = fst (chatSubscribe sub rid (chat tr))\<rparr>]\<rparr>"
| "chatStep P (RunEnds n) tr =
     (if n < length (runs tr)
      then tr\<lparr>chat := chatFinally (runSubChat (runs tr ! n)) (runRunId (runs tr ! n)) (chat tr),
              ended := insert (runController (runs tr ! n)) (ended tr)\<rparr>
      else tr)"
| "chatStep P (Unsubscribe n) tr =
     (if n < length (runs tr)
      then tr\<lparr>chat := chatTeardown (runSubChat (runs tr ! n)) (runRunId (runs tr ! n))
                        (runController (runs tr ! n)) (chat tr)\<rparr>
      else tr)"
| "chatStep P (ForceNewSession sub) tr = tr\<lparr>chat := cleanupProvider sub (chat tr)\<rparr>"
| "chatStep P (Provide sub d sid auth) tr = tr\<lparr>chat := snd (getOrCreateProvider P sub d sid auth (chat tr))\<rparr>"
| "chatStep P (Cancel sub rid) tr = tr\<lparr>chat := snd (cancel sub rid (chat tr))\<rparr>"
| "chatStep P (Cleanup sub) tr = tr\<lparr>chat := cleanup sub (chat tr)\<rparr>"

definition chatRun :: "Platform \<Rightarrow> ChatEvent list \<Rightarrow> ChatTrace \<Rightarrow> ChatTrace" where
  "chatRun P events tr = fold (chatStep P) events tr"

text \<open>The pairs of sub-chat id and run id that a list of events starts runs with.\<close>

fun subscriptions :: "ChatEvent list \<Rightarrow> (string \<times> string) list" where
  "subscriptions [] = []"
| "subscriptions (Subscribe sub rid # events) = (sub, rid) # subscriptions events"
| "subscriptions (_ # events) = subscriptions events"

definition runKey :: "Run \<Rightarrow> string \<times> string" where
  "runKey r = (runSubChat r, runRunId r)"

text \<open>
  A run is live, its stream active, when its \<^verbatim>\<open>finally\<close> block has not run and its
  controller is not aborted; it is registered when the registry holds its run id and
  controller for its sub-chat.
\<close>

definition liveRun :: "ChatTrace \<Rightarrow> Run \<Rightarrow> bool" where
  "liveRun tr r \<longleftrightarrow>
     r \<in> set (runs tr) \<and> runController r \<notin> ended tr \<and> runController r \<notin> aborted (chat tr)"

definition registeredRun :: "ChatTrace \<Rightarrow> Run \<Rightarrow> bool" where
  "registeredRun tr r \<longleftrightarrow>
     activeStreams (chat tr) (runSubChat r) = Some \<lparr>runId = runRunId r, controller = runController r\<rparr>"

text \<open>The invariant of a trace whose runs differ in sub-chat id or run id.\<close>

definition runsInv :: "ChatTrace \<Rightarrow> bool" where
  "runsInv tr \<longleftrightarrow> distinct (map runKey (runs tr)) \<and> (\<forall>r. liveRun tr r \<longrightarrow> registeredRun tr r)"

section \<open>Login sessions\<close>

datatype CodexLoginSessionState = Running | Success | Error | Cancelled

text \<open>Of the child process the router reads the flag \<^verbatim>\<open>killed\<close>.\<close>

record ChildProcess =
  killed :: bool

record CodexLoginSession =
  id' :: string
  process :: "ChildProcess option"
  state :: CodexLoginSessionState
  "output" :: string
  url :: "string option"
  error :: "string option"
  exitCode :: "int option"

record LoginSessionResponse =
  sessionId :: string
  resState :: CodexLoginSessionState
  resUrl :: "string option"
  resOutput :: string
  resError :: "string option"
  resExitCode :: "int option"

fun firstNonLocalhost :: "Platform \<Rightarrow> string list \<Rightarrow> string option" where
  "firstNonLocalhost P [] = None"
| "firstNonLocalhost P (match # rest) =
     (case parseUrl P (stripFirst TRAILING_PUNCTUATION_REGEX (trim match)) of
        None \<Rightarrow> firstNonLocalhost P rest
      | Some parsedUrl \<Rightarrow>
          if \<not> isLocalhostHostname (hostname parsedUrl) then Some (href parsedUrl)
          else firstNonLocalhost P rest)"

definition extractFirstNonLocalhostUrl :: "Platform \<Rightarrow> string \<Rightarrow> string option" where
  "extractFirstNonLocalhostUrl P output' =
     firstNonLocalhost P (matchAll URL_CANDIDATE_REGEX (stripAnsi output'))"

text \<open>\<^verbatim>\<open>!session.url\<close> holds for \<^verbatim>\<open>null\<close> and for the empty string.\<close>

definition appendLoginOutput :: "Platform \<Rightarrow> CodexLoginSession \<Rightarrow> string \<Rightarrow> CodexLoginSession" where
  "appendLoginOutput P session chunk =
     (let cleanChunk = stripAnsi chunk
      in if cleanChunk = [] then session
         else
           let session1 = session\<lparr>output := output session @ cleanChunk\<rparr>
           in if url session1 = None \<or> url session1 = Some []
              then session1\<lparr>url := extractFirstNonLocalhostUrl P (output session1)\<rparr>
              else session1)"

definition toLoginSessionResponse :: "CodexLoginSession \<Rightarrow> LoginSessionResponse" where
  "toLoginSessionResponse session =
     \<lparr>sessionId = id' session, resState = state session, resUrl = url session,
      resOutput = output session, resError = error session, resExitCode = exitCode session\<rparr>"

text \<open>
  A session is an object that the registry and the listeners of its child process share:
  the model keeps every session object created, in order of creation, with the
  \<^verbatim>\<open>once\<close> listeners of its child that have not fired yet. \<open>loginSessions\<close> is the
  \<^verbatim>\<open>Map\<close> from session id to session object, in insertion order; \<^verbatim>\<open>Map.set\<close> is
  \<open>AList.update\<close>. No entry is ever deleted.
\<close>

record LoginObject =
  session :: CodexLoginSession
  errorListener :: bool
  closeListener :: bool

record LoginState =
  loginSessions :: "(string \<times> nat) list"
  objects :: "LoginObject list"

definition initialLoginState :: LoginState where
  "initialLoginState = \<lparr>loginSessions = [], objects = []\<rparr>"

definition sessionAt :: "LoginState \<Rightarrow> nat \<Rightarrow> CodexLoginSession option" where
  "sessionAt st r = (if r < length (objects st) then Some (session (objects st ! r)) else None)"

definition isActive :: "CodexLoginSession \<Rightarrow> bool" where
  "isActive s = (state s = Running \<and> (case process s of None \<Rightarrow> False | Some p \<Rightarrow> \<not> killed p))"

definition activeAt :: "LoginState \<Rightarrow> nat \<Rightarrow> bool" where
  "activeAt st r = (case sessionAt st r of None \<Rightarrow> False | Some s \<Rightarrow> isActive s)"

definition getActiveLoginSession :: "LoginState \<Rightarrow> nat option" where
  "getActiveLoginSession st = find (activeAt st) (map snd (loginSessions st))"

definition resolveBundledCodexCliPath :: "Platform \<Rightarrow> thrown + string" where
  "resolveBundledCodexCliPath P =
     (if existsSync P (bundledCliPath P) then Inr (bundledCliPath P)
      else Inl (BundledCliNotFound (bundledCliPath P)))"

text \<open>\<open>startLogin P sessionId st\<close>, where \<open>sessionId\<close> is what \<^verbatim>\<open>crypto.randomUUID()\<close> returns.\<close>

definition startLogin :: "Platform \<Rightarrow> string \<Rightarrow> LoginState \<Rightarrow> (thrown + LoginSessionResponse) \<times> LoginState" where
  "startLogin P sessionId' st =
     (case getActiveLoginSession st of
        Some r \<Rightarrow> (Inr (toLoginSessionResponse (session (objects st ! r))), st)
      | None \<Rightarrow>
          (case resolveBundledCodexCliPath P of
             Inl e \<Rightarrow> (Inl e, st)
           | Inr codexCliPath \<Rightarrow>
               let session' =
                     \<lparr>id' = sessionId', process = Some \<lparr>killed = False\<rparr>, state = Running,
                      output = [], url = None, error = None, exitCode = None\<rparr>;
                   r = length (objects st)
               in (Inr (toLoginSessionResponse session'),
                   st\<lparr>objects := objects st @
                         [\<lparr>session = session', errorListener = True, closeListener = True\<rparr>],
                      loginSessions := AList.update sessionId' r (loginSessions st)\<rparr>)))"

text \<open>The listeners of the child of session object \<open>r\<close>.\<close>

definition onData :: "Platform \<Rightarrow> nat \<Rightarrow> string \<Rightarrow> LoginState \<Rightarrow> LoginState" where
  "onData P r chunk st =
     (if r < length (objects st)
      then let obj = objects st ! r
           in st\<lparr>objects := (objects st)[r := obj\<lparr>session := appendLoginOutput P (session obj) chunk\<rparr>]\<rparr>
      else st)"

definition onError :: "nat \<Rightarrow> string \<Rightarrow> LoginState \<Rightarrow> LoginState" where
  "onError r message st =
     (if r < length (objects st) \<and> errorListener (objects st ! r)
      then let obj = objects st ! r
           in st\<lparr>objects := (objects st)[r := obj
                  \<lparr>errorListener := False,
                   session := (session obj)
                     \<lparr>state := Error,
                      error := Some (''[codex] Failed to start login flow: '' @ message),
                      process := None\<rparr>\<rparr>]\<rparr>
      else st)"

definition onClose :: "nat \<Rightarrow> int option \<Rightarrow> LoginState \<Rightarrow> LoginState" where
  "onClose r exitCode' st =
     (if r < length (objects st) \<and> closeListener (objects st ! r)
      then let obj = objects st ! r;
               session1 = (session obj)\<lparr>exitCode := exitCode', process := None\<rparr>;
               session2 =
                 (if state session1 = Cancelled then session1
                  else if exitCode' = Some 0 then session1\<lparr>state := Success, error := None\<rparr>
                  else session1
                    \<lparr>state := Error,
                     error :=
                       (if error session1 = None \<or> error session1 = Some []
                        then Some (''Codex login exited with code '' @
                               (case exitCode' of None \<Rightarrow> ''unknown'' | Some n \<Rightarrow> showInt n))
                        else error session1)\<rparr>)
           in st\<lparr>objects := (objects st)[r := obj\<lparr>closeListener := False, session := session2\<rparr>]\<rparr>
      else st)"

definition getLoginSession :: "string \<Rightarrow> LoginState \<Rightarrow> thrown + LoginSessionResponse" where
  "getLoginSession sessionId' st =
     (case map_of (loginSessions st) sessionId' of
        None \<Rightarrow> Inl LoginSessionNotFound
      | Some r \<Rightarrow> Inr (toLoginSessionResponse (session (objects st ! r))))"

record CancelLoginResult =
  success :: bool
  found :: bool
  cancelSession :: "LoginSessionResponse option"

text \<open>
  What \<^verbatim>\<open>session.process.kill("SIGTERM")\<close> does in Node: the signal is sent, Node sets
  \<^verbatim>\<open>killed\<close> and \<^verbatim>\<open>kill\<close> returns true; or the child is gone already and \<^verbatim>\<open>kill\<close>
  returns false; or the signal could not be sent (\<^verbatim>\<open>EPERM\<close>, say), and Node emits
  \<^verbatim>\<open>error\<close> on the child with that error, inside \<^verbatim>\<open>kill\<close>, before it returns false.
\<close>

datatype KillOutcome = KillSent | KillNotSent | KillFailed string

definition cancelLoginResponse :: "nat \<Rightarrow> LoginState \<Rightarrow> (thrown + CancelLoginResult) \<times> LoginState" where
  "cancelLoginResponse r st =
     (Inr \<lparr>success = True, found = True,
           cancelSession = Some (toLoginSessionResponse (session (objects st ! r)))\<rparr>, st)"

text \<open>
  \<open>cancelLogin sessionId outcome st\<close>, where \<open>outcome\<close> is what \<^verbatim>\<open>kill\<close> does if it
  is called. An \<^verbatim>\<open>error\<close> event that \<^verbatim>\<open>kill\<close> emits runs the listener \<open>onError\<close>
  at once, so the response is made from the session as that listener left it; emitted
  with no listener left, the error is thrown.
\<close>

definition cancelLogin ::
  "string \<Rightarrow> KillOutcome \<Rightarrow> LoginState \<Rightarrow> (thrown + CancelLoginResult) \<times> LoginState" where
  "cancelLogin sessionId' outcome st =
     (case map_of (loginSessions st) sessionId' of
        None \<Rightarrow> (Inr \<lparr>success = True, found = False, cancelSession = None\<rparr>, st)
      | Some r \<Rightarrow>
          let obj = objects st ! r;
              session1 = (session obj)\<lparr>state := Cancelled, error := None\<rparr>;
              st1 = st\<lparr>objects := (objects st)[r := obj\<lparr>session := session1\<rparr>]\<rparr>
          in case process session1 of
               None \<Rightarrow> cancelLoginResponse r st1
             | Some child \<Rightarrow>
                 if killed child then cancelLoginResponse r st1
                 else
                   (case outcome of
                      KillSent \<Rightarrow>
                        cancelLoginResponse r
                          (st\<lparr>objects := (objects st)[r := obj
                               \<lparr>session := session1\<lparr>process := Some (child\<lparr>killed := True\<rparr>)\<rparr>\<rparr>]\<rparr>)
                    | KillNotSent \<Rightarrow> cancelLoginResponse r st1
                    | KillFailed message \<Rightarrow>
                        if errorListener obj then cancelLoginResponse r (onError r message st1)
                        else (Inl (UnhandledChildError message), st1)))"

text \<open>What can happen to the login state: the three requests and the events of a child.\<close>

datatype LoginEvent =
    StartLogin string
  | GetLoginSession string
  | CancelLogin string KillOutcome
  | ChildData nat string
  | ChildError nat string
  | ChildClose nat "int option"

fun loginStep :: "Platform \<Rightarrow> LoginEvent \<Rightarrow> LoginState \<Rightarrow> LoginState" where
  "loginStep P (StartLogin sessionId') st = snd (startLogin P sessionId' st)"
| "loginStep P (GetLoginSession sessionId') st = st"
| "loginStep P (CancelLogin sessionId' outcome) st = snd (cancelLogin sessionId' outcome st)"
| "loginStep P (ChildData r chunk) st = onData P r chunk st"
| "loginStep P (ChildError r message) st = onError r message st"
| "loginStep P (ChildClose r exitCode') st = onClose r exitCode' st"

definition runLogin :: "Platform \<Rightarrow> LoginEvent list \<Rightarrow> LoginState \<Rightarrow> LoginState" where
  "runLogin P events st = fold (loginStep P) events st"

text \<open>
  Every reference of the registry is a session object that exists. All states reached
  from the initial one are so.
\<close>

definition wfLogin :: "LoginState \<Rightarrow> bool" where
  "wfLogin st \<longleftrightarrow> (\<forall>r \<in> snd ` set (loginSessions st). r < length (objects st))"

text \<open>The session object that \<open>startLogin\<close> creates.\<close>

definition newSession :: "string \<Rightarrow> CodexLoginSession" where
  "newSession sid = \<lparr>id' = sid, process = Some \<lparr>killed = False\<rparr>, state = Running,
                      output = [], url = None, error = None, exitCode = None\<rparr>"

text \<open>
  The invariant of the login state: the registry is well-formed, every session object
  that \<open>getActiveLoginSession\<close> would accept (state running, a child process, not
  killed) is in the registry, and there is at most one such object.
\<close>

definition loginInv :: "LoginState \<Rightarrow> bool" where
  "loginInv st \<longleftrightarrow>
     wfLogin st
     \<and> (\<forall>r. activeAt st r \<longrightarrow> r \<in> snd ` set (loginSessions st))
     \<and> (\<forall>r r'. activeAt st r \<and> activeAt st r' \<longrightarrow> r = r')"

text \<open>
  The child process of session object \<open>r\<close> has been spawned and its \<^verbatim>\<open>close\<close> event
  has not arrived.
\<close>

definition childUnclosed :: "LoginState \<Rightarrow> nat \<Rightarrow> bool" where
  "childUnclosed st r \<longleftrightarrow> r < length (objects st) \<and> closeListener (objects st ! r)"

text \<open>A session that has a process still has the \<^verbatim>\<open>error\<close> listener of that process.\<close>

definition listenersInv :: "LoginState \<Rightarrow> bool" where
  "listenersInv st \<longleftrightarrow>
     (\<forall>r < length (objects st).
        process (session (objects st ! r)) \<noteq> None \<longrightarrow> errorListener (objects st ! r))"

text \<open>
  The serialisation of a URL is never the empty string (it starts with the scheme):
  this is what the model asks of the URL parser.
\<close>

definition hrefNonEmpty :: "Platform \<Rightarrow> bool" where
  "hrefNonEmpty P \<longleftrightarrow> (\<forall>t u. parseUrl P t = Some u \<longrightarrow> href u \<noteq> [])"

text \<open>
  The invariant of a session's URL: it is never the empty string, and while it is
  \<^verbatim>\<open>null\<close> the accumulated output holds no URL to extract.
\<close>

definition urlInv :: "Platform \<Rightarrow> CodexLoginSession \<Rightarrow> bool" where
  "urlInv P s \<longleftrightarrow>
     url s \<noteq> Some [] \<and> (url s = None \<longrightarrow> extractFirstNonLocalhostUrl P (output s) = None)"

definition allUrlInv :: "Platform \<Rightarrow> LoginState \<Rightarrow> bool" where
  "allUrlInv P st \<longleftrightarrow> (\<forall>r s. sessionAt st r = Some s \<longrightarrow> urlInv P s)"

text \<open>
  Two platforms and a state for concrete runs: Linux on x64 with the packages installed,
  Windows on ia32 (which \<open>getCodexPackageName\<close> rejects), and a state where sub-chat
  \<open>sub-1\<close> has a provider session in \<open>/work/a\<close> and the active run \<open>run-1\<close>. The
  digest is a stand-in, and the URL parser is a table of three URLs: no statement depends
  on their values.
\<close>

definition linuxX64 :: Platform where
  "linuxX64 =
     \<lparr>platform = ''linux'', arch = ''x64'', sep = ''/'',
      requireResolve = (\<lambda>request root. Some (''/app/node_modules/'' @ request)),
      dirname = (\<lambda>path. ''/app/node_modules/@zed-industries/codex-acp''),
      existsSync = (\<lambda>path. path = ''/app/resources/bin/codex''),
      processEnv = Map.empty,
      sha256hex = (\<lambda>key. ''sha256:'' @ key),
      bundledCliPath = ''/app/resources/bin/codex'',
      parseUrl = (\<lambda>text.
        if text = ''https://auth.openai.com/oauth?x=1''
        then Some \<lparr>hostname = ''auth.openai.com'', href = ''https://auth.openai.com/oauth?x=1''\<rparr>
        else if text = ''http://localhost:1455/cb''
        then Some \<lparr>hostname = ''localhost'', href = ''http://localhost:1455/cb''\<rparr>
        else if text = ''https://chatgpt.com/help''
        then Some \<lparr>hostname = ''chatgpt.com'', href = ''https://chatgpt.com/help''\<rparr>
        else None)\<rparr>"

definition win32Ia32 :: Platform where
  "win32Ia32 = linuxX64\<lparr>platform := ''win32'', arch := ''ia32'', sep := [CHR 0x5C]\<rparr>"

definition exampleChat :: ChatState where
  "exampleChat =
     \<lparr>providerSessions = [''sub-1'' \<mapsto> \<lparr>provider = 0, cwd = ''/work/a'', authFingerprint = None\<rparr>],
      activeStreams = [''sub-1'' \<mapsto> \<lparr>runId = ''run-1'', controller = 0\<rparr>],
      created = [\<lparr>command = ''/app/node_modules/@zed-industries/codex-acp-linux-x64/bin/codex-acp'',
                 env = Map.empty, authMethodId = None, sessionCwd = ''/work/a'',
                 existingSessionId = None\<rparr>],
      cleanedUp = [],
      nextController = 1,
      aborted = {}\<rparr>"

section \<open>Model name rewriting\<close>

lemma startsWith_append: "startsWith (p @ s) p"
  by (simp add: startsWith_def)

lemma startsWith_prefix: "startsWith s p \<longleftrightarrow> prefix p s"
  unfolding startsWith_def prefix_def
  by (metis append_eq_conv_conj append_take_drop_id)

text \<open>
  Claim C9. With an API key that is not blank, the model id gpt-5.3-codex becomes
  gpt-5.2-codex/high, and gpt-5.3-codex/LEVEL becomes gpt-5.2-codex/LEVEL when LEVEL
  is low, medium, high or xhigh and gpt-5.2-codex/high for any other LEVEL; every
  other model id, and every model id of a request without such a key, is returned
  as it is.
\<close>

theorem preprocessCodexModelName_rewrite:
  "(authConfig = Some a \<and> trim (apiKey a) \<noteq> [] \<longrightarrow>
      preprocessCodexModelName ''gpt-5.3-codex'' authConfig = ''gpt-5.2-codex/high''
    \<and> (level \<in> {''low'', ''medium'', ''high'', ''xhigh''} \<longrightarrow>
          preprocessCodexModelName (''gpt-5.3-codex/'' @ level) authConfig
            = ''gpt-5.2-codex/'' @ level)
    \<and> (level \<notin> {''low'', ''medium'', ''high'', ''xhigh''} \<longrightarrow>
          preprocessCodexModelName (''gpt-5.3-codex/'' @ level) authConfig
            = ''gpt-5.2-codex/high'')
    \<and> (modelId \<noteq> ''gpt-5.3-codex'' \<and> \<not> prefix ''gpt-5.3-codex/'' modelId \<longrightarrow>
          preprocessCodexModelName modelId authConfig = modelId))
   \<and> ((authConfig = None \<or> (\<exists>b. authConfig = Some b \<and> trim (apiKey b) = [])) \<longrightarrow>
          preprocessCodexModelName modelId authConfig = modelId)"
proof -
  have pre: "startsWith (''gpt-5.3-codex/'' @ level) ''gpt-5.3-codex/''"
    by (rule startsWith_append)
  have sl: "slice (''gpt-5.3-codex/'' @ level) (length ''gpt-5.3-codex/'') = level"
    by (simp add: slice_def)
  have ne: "''gpt-5.3-codex/'' @ level \<noteq> ''gpt-5.3-codex''"
    by simp
  have key: "authConfig = Some a \<and> trim (apiKey a) \<noteq> [] \<Longrightarrow> hasAppManagedApiKey authConfig"
    by (simp add: hasAppManagedApiKey_def)
  have nokey: "authConfig = None \<or> (\<exists>b. authConfig = Some b \<and> trim (apiKey b) = [])
      \<Longrightarrow> \<not> hasAppManagedApiKey authConfig"
    by (auto simp: hasAppManagedApiKey_def)
  show ?thesis
    using pre sl ne key nokey
    unfolding preprocessCodexModelName_def Let_def supportedThinkingLevels_def
    by (auto simp: startsWith_prefix simp del: append.simps)
qed

theorem preprocessCodexModelName_rewrite_witness:
  "preprocessCodexModelName ''gpt-5.3-codex'' (Some \<lparr>apiKey = '' sk-1 ''\<rparr>) = ''gpt-5.2-codex/high''
   \<and> preprocessCodexModelName ''gpt-5.3-codex/xhigh'' (Some \<lparr>apiKey = '' sk-1 ''\<rparr>) = ''gpt-5.2-codex/xhigh''
   \<and> preprocessCodexModelName ''gpt-5.3-codex/max'' (Some \<lparr>apiKey = '' sk-1 ''\<rparr>) = ''gpt-5.2-codex/high''
   \<and> preprocessCodexModelName ''gpt-5.2-codex/low'' (Some \<lparr>apiKey = '' sk-1 ''\<rparr>) = ''gpt-5.2-codex/low''
   \<and> preprocessCodexModelName ''gpt-5.3-codex/low'' None = ''gpt-5.3-codex/low''
   \<and> preprocessCodexModelName ''gpt-5.3-codex/low'' (Some \<lparr>apiKey = ''  ''\<rparr>) = ''gpt-5.3-codex/low''"
proof -
  have k: "trim (apiKey \<lparr>apiKey = '' sk-1 ''\<rparr>) \<noteq> []"
    by (simp add: trim_def isWhiteSpace_def)
  have b: "trim (apiKey \<lparr>apiKey = ''  ''\<rparr>) = []"
    by (simp add: trim_def isWhiteSpace_def)
  have np: "\<not> prefix ''gpt-5.3-codex/'' ''gpt-5.2-codex/low''"
    by simp
  show ?thesis
    using k b np
      preprocessCodexModelName_rewrite [of "Some \<lparr>apiKey = '' sk-1 ''\<rparr>" "\<lparr>apiKey = '' sk-1 ''\<rparr>" "''xhigh''" "''gpt-5.2-codex/low''"]
      preprocessCodexModelName_rewrite [of "Some \<lparr>apiKey = '' sk-1 ''\<rparr>" "\<lparr>apiKey = '' sk-1 ''\<rparr>" "''max''" "''gpt-5.2-codex/low''"]
      preprocessCodexModelName_rewrite [of None "\<lparr>apiKey = []\<rparr>" "''low''" "''gpt-5.3-codex/low''"]
      preprocessCodexModelName_rewrite [of "Some \<lparr>apiKey = ''  ''\<rparr>" "\<lparr>apiKey = []\<rparr>" "''low''" "''gpt-5.3-codex/low''"]
    by simp
qed

section \<open>The active stream registry\<close>

lemma holdsRun_iff:
  "holdsRun st sub rid \<longleftrightarrow> (\<exists>s. activeStreams st sub = Some s \<and> runId s = rid)"
  by (simp add: holdsRun_def split: option.splits)

lemma chatFinally_streams:
  "activeStreams (chatFinally sub rid st) =
     (if \<exists>s. activeStreams st sub = Some s \<and> runId s = rid
      then (activeStreams st)(sub := None) else activeStreams st)"
  by (auto simp: chatFinally_def holdsRun_iff)

lemma chatTeardown_streams:
  "activeStreams (chatTeardown sub rid c st) =
     (if \<exists>s. activeStreams st sub = Some s \<and> runId s = rid
      then (activeStreams st)(sub := None) else activeStreams st)"
  by (auto simp: chatTeardown_def holdsRun_iff abort_def Let_def)

lemma chatSubscribe_registers:
  "activeStreams (snd (chatSubscribe sub rid st)) =
     (activeStreams st)(sub \<mapsto> \<lparr>runId = rid, controller = fst (chatSubscribe sub rid st)\<rparr>)"
  by (simp add: chatSubscribe_def Let_def cleanupProvider_def abort_def split: option.splits)

lemma chatSubscribe_controller: "fst (chatSubscribe sub rid st) = nextController st"
  by (simp add: chatSubscribe_def Let_def cleanupProvider_def abort_def split: option.splits)

lemma chatSubscribe_aborted:
  "aborted (snd (chatSubscribe sub rid st)) =
     (case activeStreams st sub of
        None \<Rightarrow> aborted st
      | Some old \<Rightarrow> insert (controller old) (aborted st))"
  by (simp add: chatSubscribe_def Let_def cleanupProvider_def abort_def split: option.splits)

lemma chatSubscribe_fresh:
  assumes "wfChat st"
  shows "fst (chatSubscribe sub rid st) \<notin> aborted (snd (chatSubscribe sub rid st))"
proof -
  have a: "nextController st \<notin> aborted st"
    using assms by (auto simp: wfChat_def)
  have b: "\<And>old. activeStreams st sub = Some old \<Longrightarrow> controller old \<noteq> nextController st"
    using assms by (fastforce simp: wfChat_def)
  show ?thesis
    using a b by (auto simp: chatSubscribe_controller chatSubscribe_aborted split: option.splits)
qed

lemma chatSubscribe_supersede:
  assumes "activeStreams st sub = Some old"
  shows "aborted (snd (chatSubscribe sub rid st)) = insert (controller old) (aborted st)"
    and "providerSessions (snd (chatSubscribe sub rid st)) = (providerSessions st)(sub := None)"
    and "cleanedUp (snd (chatSubscribe sub rid st)) =
           cleanedUp st @ (case providerSessions st sub of None \<Rightarrow> [] | Some p \<Rightarrow> [provider p])"
  using assms
  by (auto simp: chatSubscribe_def Let_def cleanupProvider_def abort_def split: option.splits)

subsection \<open>Well-formedness is an invariant\<close>

lemma wfChat_initial: "wfChat initialChatState"
  by (simp add: wfChat_def initialChatState_def)

lemma wfChat_abort: "wfChat st \<Longrightarrow> c < nextController st \<Longrightarrow> wfChat (abort c st)"
  by (auto simp: wfChat_def abort_def)

lemma wfChat_cleanupProvider: "wfChat st \<Longrightarrow> wfChat (cleanupProvider sub st)"
  by (auto simp: wfChat_def cleanupProvider_def split: option.splits)

lemma wfChat_unregister:
  "wfChat st \<Longrightarrow> wfChat (st\<lparr>activeStreams := (activeStreams st)(sub := None)\<rparr>)"
  by (auto simp: wfChat_def split: if_splits)

lemma wfChat_chatSubscribe: "wfChat st \<Longrightarrow> wfChat (snd (chatSubscribe sub rid st))"
  by (auto simp: chatSubscribe_def Let_def cleanupProvider_def abort_def wfChat_def less_Suc_eq
      split: option.splits if_splits)

lemma wfChat_chatFinally: "wfChat st \<Longrightarrow> wfChat (chatFinally sub rid st)"
  by (simp add: chatFinally_def wfChat_unregister)

lemma wfChat_chatTeardown:
  "wfChat st \<Longrightarrow> c < nextController st \<Longrightarrow> wfChat (chatTeardown sub rid c st)"
  by (simp add: chatTeardown_def Let_def wfChat_unregister wfChat_abort)

lemma wfChat_getOrCreateProvider:
  "wfChat st \<Longrightarrow> wfChat (snd (getOrCreateProvider P sub d sid auth st))"
  by (auto simp: wfChat_def getOrCreateProvider_def Let_def split: option.splits sum.splits)

lemma wfChat_cancel: "wfChat st \<Longrightarrow> wfChat (snd (cancel sub rid st))"
  by (auto simp: cancel_def Let_def cleanupProvider_def abort_def wfChat_def
      split: option.splits if_splits)

lemma wfChat_cleanup: "wfChat st \<Longrightarrow> wfChat (cleanup sub st)"
  by (auto simp: cleanup_def Let_def cleanupProvider_def abort_def wfChat_def
      split: option.splits if_splits)

lemma reachableChat_wfChat: "reachableChat P st \<Longrightarrow> wfChat st"
  by (induction rule: reachableChat.induct)
     (simp_all add: wfChat_initial wfChat_chatSubscribe wfChat_chatFinally wfChat_chatTeardown
        wfChat_cleanupProvider wfChat_getOrCreateProvider wfChat_cancel wfChat_cleanup)

lemma wfChat_exampleChat: "wfChat exampleChat"
  by (simp add: wfChat_def exampleChat_def)

lemma reachableChat_exampleChat: "reachableChat linuxX64 exampleChat"
proof -
  let ?s1 = "snd (chatSubscribe ''sub-1'' ''run-1'' initialChatState)"
  have "reachableChat linuxX64 (snd (getOrCreateProvider linuxX64 ''sub-1'' ''/work/a'' None None ?s1))"
    by (intro reachableChat.provide reachableChat.subscribe reachableChat.init)
  moreover have "snd (getOrCreateProvider linuxX64 ''sub-1'' ''/work/a'' None None ?s1) = exampleChat"
    by (simp add: getOrCreateProvider_def chatSubscribe_def initialChatState_def exampleChat_def
        Let_def getAuthFingerprint_def resolveCodexAcpBinaryPath_def getCodexPackageName_def
        linuxX64_def toUnpackedAsarPath_def startsWith_def hasAppManagedApiKey_def
        buildCodexProviderEnv_def getCodexAuthMethodId_def)
  ultimately show ?thesis by simp
qed

subsection \<open>The runs of a sub-chat\<close>

lemma chatFinally_aborted: "aborted (chatFinally sub rid st) = aborted st"
  by (simp add: chatFinally_def)

lemma chatTeardown_aborted: "aborted (chatTeardown sub rid c st) = insert c (aborted st)"
  by (simp add: chatTeardown_def abort_def Let_def)

lemma cleanupProvider_frame:
  "activeStreams (cleanupProvider sub st) = activeStreams st"
  "aborted (cleanupProvider sub st) = aborted st"
  by (simp_all add: cleanupProvider_def split: option.splits)

lemma getOrCreateProvider_frame:
  "activeStreams (snd (getOrCreateProvider P sub d sid auth st)) = activeStreams st"
  "aborted (snd (getOrCreateProvider P sub d sid auth st)) = aborted st"
  by (simp_all add: getOrCreateProvider_def Let_def split: option.splits sum.splits)

lemma cancel_frame:
  "snd (cancel sub rid st) = st
   \<or> (\<exists>e. activeStreams st sub = Some e
        \<and> activeStreams (snd (cancel sub rid st)) = (activeStreams st)(sub := None)
        \<and> aborted (snd (cancel sub rid st)) = insert (controller e) (aborted st))"
  by (auto simp: cancel_def Let_def cleanupProvider_def abort_def split: option.splits)

lemma cleanup_frame:
  "(activeStreams st sub = None \<and> activeStreams (cleanup sub st) = activeStreams st
      \<and> aborted (cleanup sub st) = aborted st)
   \<or> (\<exists>e. activeStreams st sub = Some e
        \<and> activeStreams (cleanup sub st) = (activeStreams st)(sub := None)
        \<and> aborted (cleanup sub st) = insert (controller e) (aborted st))"
  by (auto simp: cleanup_def Let_def cleanupProvider_def abort_def split: option.splits)

lemma runKey_inj:
  assumes "distinct (map runKey rs)" "r \<in> set rs" "r' \<in> set rs" "runKey r = runKey r'"
  shows "r = r'"
  using assms by (auto simp: distinct_map dest: inj_onD)

text \<open>Removing or superseding the registered stream aborts it, so no live run loses its entry.\<close>

lemma runsInv_unregister:
  assumes inv: "runsInv tr"
    and rs: "runs tr' = runs tr" and en: "ended tr' = ended tr"
    and e: "activeStreams (chat tr) sub = Some e"
    and s: "activeStreams (chat tr') = (activeStreams (chat tr))(sub := None)"
    and a: "aborted (chat tr') = insert (controller e) (aborted (chat tr))"
  shows "runsInv tr'"
  unfolding runsInv_def
proof (intro conjI allI impI)
  show "distinct (map runKey (runs tr'))" using inv rs by (simp add: runsInv_def)
next
  fix r assume l: "liveRun tr' r"
  then have l0: "liveRun tr r" using rs en a by (simp add: liveRun_def)
  then have reg: "registeredRun tr r" using inv by (simp add: runsInv_def)
  have "runSubChat r \<noteq> sub"
  proof
    assume "runSubChat r = sub"
    then have "controller e = runController r" using reg e by (simp add: registeredRun_def)
    then show False using l a by (simp add: liveRun_def)
  qed
  then show "registeredRun tr' r" using reg s by (simp add: registeredRun_def)
qed

lemma runsInv_same:
  assumes inv: "runsInv tr"
    and rs: "runs tr' = runs tr" and en: "ended tr' = ended tr"
    and s: "activeStreams (chat tr') = activeStreams (chat tr)"
    and a: "aborted (chat tr') = aborted (chat tr)"
  shows "runsInv tr'"
  using inv unfolding runsInv_def liveRun_def registeredRun_def rs en s a by simp

text \<open>The end and the teardown of a run: a live run with another key keeps its entry.\<close>

lemma runsInv_own:
  assumes inv: "runsInv tr" and n: "n < length (runs tr)"
    and rs: "runs tr' = runs tr"
    and dead: "\<And>r. liveRun tr' r \<Longrightarrow> liveRun tr r \<and> runController r \<noteq> runController (runs tr ! n)"
    and s: "activeStreams (chat tr') =
              (if \<exists>s. activeStreams (chat tr) (runSubChat (runs tr ! n)) = Some s
                      \<and> runId s = runRunId (runs tr ! n)
               then (activeStreams (chat tr))(runSubChat (runs tr ! n) := None)
               else activeStreams (chat tr))"
  shows "runsInv tr'"
  unfolding runsInv_def
proof (intro conjI allI impI)
  show "distinct (map runKey (runs tr'))" using inv rs by (simp add: runsInv_def)
next
  fix r assume l: "liveRun tr' r"
  let ?own = "runs tr ! n"
  have l0: "liveRun tr r" and ne: "runController r \<noteq> runController ?own"
    using dead [OF l] by simp_all
  have reg: "registeredRun tr r" using inv l0 by (simp add: runsInv_def)
  have own: "?own \<in> set (runs tr)" using n by simp
  have rin: "r \<in> set (runs tr)" using l0 by (simp add: liveRun_def)
  have "runKey r \<noteq> runKey ?own"
  proof
    assume "runKey r = runKey ?own"
    then have "r = ?own"
      using inv rin own by (auto simp: runsInv_def intro: runKey_inj)
    then show False using ne by simp
  qed
  then have "runSubChat r \<noteq> runSubChat ?own \<or> runRunId r \<noteq> runRunId ?own"
    by (auto simp: runKey_def)
  then show "registeredRun tr' r"
    using reg unfolding registeredRun_def s by auto
qed

lemma runsInv_subscribe:
  assumes inv: "runsInv tr" and fresh: "(sub, rid) \<notin> runKey ` set (runs tr)"
  shows "runsInv (chatStep P (Subscribe sub rid) tr)"
  unfolding runsInv_def
proof (intro conjI allI impI)
  show "distinct (map runKey (runs (chatStep P (Subscribe sub rid) tr)))"
    using inv fresh by (simp add: runsInv_def runKey_def)
next
  fix r assume l: "liveRun (chatStep P (Subscribe sub rid) tr) r"
  let ?new = "\<lparr>runSubChat = sub, runRunId = rid, runController = fst (chatSubscribe sub rid (chat tr))\<rparr>"
  show "registeredRun (chatStep P (Subscribe sub rid) tr) r"
  proof (cases "r = ?new")
    case True
    then show ?thesis by (simp add: registeredRun_def chatSubscribe_registers)
  next
    case False
    then have rin: "r \<in> set (runs tr)" using l by (simp add: liveRun_def)
    have na: "runController r \<notin> aborted (snd (chatSubscribe sub rid (chat tr)))"
      and ne: "runController r \<notin> ended tr"
      using l by (simp_all add: liveRun_def)
    have "runController r \<notin> aborted (chat tr)"
      using na by (auto simp: chatSubscribe_aborted split: option.splits)
    then have "liveRun tr r" using rin ne by (simp add: liveRun_def)
    then have reg: "registeredRun tr r" using inv by (simp add: runsInv_def)
    have "runSubChat r \<noteq> sub"
    proof
      assume "runSubChat r = sub"
      then have "activeStreams (chat tr) sub = Some \<lparr>runId = runRunId r, controller = runController r\<rparr>"
        using reg by (simp add: registeredRun_def)
      then show False using na by (simp add: chatSubscribe_aborted)
    qed
    then show ?thesis using reg by (simp add: registeredRun_def chatSubscribe_registers)
  qed
qed

lemma runsInv_step:
  assumes inv: "runsInv tr"
    and fresh: "\<And>sub rid. e = Subscribe sub rid \<Longrightarrow> (sub, rid) \<notin> runKey ` set (runs tr)"
  shows "runsInv (chatStep P e tr)"
proof (cases e)
  case (Subscribe sub rid)
  then show ?thesis using runsInv_subscribe [OF inv fresh [OF Subscribe]] by simp
next
  case (RunEnds n)
  show ?thesis
  proof (cases "n < length (runs tr)")
    case True
    have "runsInv (tr\<lparr>chat := chatFinally (runSubChat (runs tr ! n)) (runRunId (runs tr ! n)) (chat tr),
              ended := insert (runController (runs tr ! n)) (ended tr)\<rparr>)"
      by (rule runsInv_own [OF inv True])
         (auto simp: liveRun_def chatFinally_aborted chatFinally_streams)
    then show ?thesis using RunEnds True by simp
  next
    case False
    then show ?thesis using RunEnds inv by simp
  qed
next
  case (Unsubscribe n)
  show ?thesis
  proof (cases "n < length (runs tr)")
    case True
    have "runsInv (tr\<lparr>chat := chatTeardown (runSubChat (runs tr ! n)) (runRunId (runs tr ! n))
                        (runController (runs tr ! n)) (chat tr)\<rparr>)"
      by (rule runsInv_own [OF inv True])
         (auto simp: liveRun_def chatTeardown_aborted chatTeardown_streams)
    then show ?thesis using Unsubscribe True by simp
  next
    case False
    then show ?thesis using Unsubscribe inv by simp
  qed
next
  case (ForceNewSession sub)
  have "runsInv (tr\<lparr>chat := cleanupProvider sub (chat tr)\<rparr>)"
    by (rule runsInv_same [OF inv]) (simp_all add: cleanupProvider_frame)
  then show ?thesis using ForceNewSession by simp
next
  case (Provide sub d sid auth)
  have "runsInv (tr\<lparr>chat := snd (getOrCreateProvider P sub d sid auth (chat tr))\<rparr>)"
    by (rule runsInv_same [OF inv]) (simp_all add: getOrCreateProvider_frame)
  then show ?thesis using Provide by simp
next
  case (Cancel sub rid)
  from cancel_frame [of sub rid "chat tr"]
  have "runsInv (tr\<lparr>chat := snd (cancel sub rid (chat tr))\<rparr>)"
  proof
    assume "snd (cancel sub rid (chat tr)) = chat tr"
    then show ?thesis using inv by simp
  next
    assume "\<exists>e. activeStreams (chat tr) sub = Some e
        \<and> activeStreams (snd (cancel sub rid (chat tr))) = (activeStreams (chat tr))(sub := None)
        \<and> aborted (snd (cancel sub rid (chat tr))) = insert (controller e) (aborted (chat tr))"
    then obtain e where e: "activeStreams (chat tr) sub = Some e"
        "activeStreams (snd (cancel sub rid (chat tr))) = (activeStreams (chat tr))(sub := None)"
        "aborted (snd (cancel sub rid (chat tr))) = insert (controller e) (aborted (chat tr))"
      by blast
    show ?thesis
      by (rule runsInv_unregister [OF inv _ _ e(1)]) (simp_all add: e)
  qed
  then show ?thesis using Cancel by simp
next
  case (Cleanup sub)
  from cleanup_frame [of "chat tr" sub]
  have "runsInv (tr\<lparr>chat := cleanup sub (chat tr)\<rparr>)"
  proof
    assume "activeStreams (chat tr) sub = None \<and> activeStreams (cleanup sub (chat tr)) = activeStreams (chat tr)
      \<and> aborted (cleanup sub (chat tr)) = aborted (chat tr)"
    then show ?thesis by (intro runsInv_same [OF inv]) simp_all
  next
    assume "\<exists>e. activeStreams (chat tr) sub = Some e
        \<and> activeStreams (cleanup sub (chat tr)) = (activeStreams (chat tr))(sub := None)
        \<and> aborted (cleanup sub (chat tr)) = insert (controller e) (aborted (chat tr))"
    then obtain e where e: "activeStreams (chat tr) sub = Some e"
        "activeStreams (cleanup sub (chat tr)) = (activeStreams (chat tr))(sub := None)"
        "aborted (cleanup sub (chat tr)) = insert (controller e) (aborted (chat tr))"
      by blast
    show ?thesis
      by (rule runsInv_unregister [OF inv _ _ e(1)]) (simp_all add: e)
  qed
  then show ?thesis using Cleanup by simp
qed

lemma runs_step_keys:
  "map runKey (runs (chatStep P e tr)) @ subscriptions events
     = map runKey (runs tr) @ subscriptions (e # events)"
  by (cases e) (simp_all add: runKey_def)

lemma chatRun_Nil: "chatRun P [] tr = tr"
  by (simp add: chatRun_def)

lemma chatRun_Cons: "chatRun P (e # events) tr = chatRun P events (chatStep P e tr)"
  by (simp add: chatRun_def)

lemma runsInv_run:
  "runsInv tr \<Longrightarrow> distinct (map runKey (runs tr) @ subscriptions events) \<Longrightarrow> runsInv (chatRun P events tr)"
proof (induction events arbitrary: tr)
  case Nil
  then show ?case by (simp add: chatRun_Nil)
next
  case (Cons e events)
  have fresh: "\<And>sub rid. e = Subscribe sub rid \<Longrightarrow> (sub, rid) \<notin> runKey ` set (runs tr)"
    using Cons.prems(2) by auto
  have i: "runsInv (chatStep P e tr)"
    by (rule runsInv_step [OF Cons.prems(1) fresh])
  have d: "distinct (map runKey (runs (chatStep P e tr)) @ subscriptions events)"
    using Cons.prems(2) by (simp only: runs_step_keys)
  show ?case
    using Cons.IH [OF i d] by (simp add: chatRun_Cons)
qed

lemma runsInv_initial: "runsInv initialChatTrace"
  by (simp add: runsInv_def initialChatTrace_def liveRun_def)

lemma live_run_registered:
  assumes "distinct (subscriptions events)" "liveRun (chatRun P events initialChatTrace) r"
  shows "registeredRun (chatRun P events initialChatTrace) r"
proof -
  have "runsInv (chatRun P events initialChatTrace)"
    by (rule runsInv_run [OF runsInv_initial]) (simp add: initialChatTrace_def assms(1))
  then show ?thesis using assms(2) by (simp add: runsInv_def)
qed

lemma one_live_run:
  assumes "distinct (subscriptions events)"
    and "liveRun (chatRun P events initialChatTrace) r" "liveRun (chatRun P events initialChatTrace) r'"
    and "runSubChat r = runSubChat r'"
  shows "r = r'"
proof -
  have "runsInv (chatRun P events initialChatTrace)"
    by (rule runsInv_run [OF runsInv_initial]) (simp add: initialChatTrace_def assms(1))
  then have "registeredRun (chatRun P events initialChatTrace) r"
    "registeredRun (chatRun P events initialChatTrace) r'"
    using assms(2,3) by (simp_all add: runsInv_def)
  then show ?thesis using assms(4) by (simp add: registeredRun_def)
qed

subsection \<open>One active stream for each sub-chat\<close>

text \<open>
  Claim C1, as the code has it. In a well-formed state (every reachable state is one),
  when the chat subscription starts for a sub-chat id that has an entry, that entry's
  controller is aborted and the sub-chat's provider session is cleaned up and removed;
  the new run is registered under a new controller, which is another one than the old
  and is not aborted. The end of a run (its \<^verbatim>\<open>finally\<close> block) and its teardown
  remove the entry exactly when the entry holds a run id equal to the run's own; so
  after run \<open>rid\<close> has been superseded by a run with another run id \<open>rid'\<close>, neither
  the end nor the teardown of run \<open>rid\<close> removes the registration of \<open>rid'\<close>. And
  as long as no run id is used twice for a sub-chat, after any events every live run is
  the registered one of its sub-chat, so a sub-chat has at most one live run.
\<close>

theorem chat_single_active_stream:
  assumes wf: "wfChat st"
  shows
    "activeStreams (snd (chatSubscribe sub rid st)) sub
        = Some \<lparr>runId = rid, controller = fst (chatSubscribe sub rid st)\<rparr>
     \<and> fst (chatSubscribe sub rid st) \<notin> aborted (snd (chatSubscribe sub rid st))
     \<and> (\<forall>old. activeStreams st sub = Some old \<longrightarrow>
            controller old \<in> aborted (snd (chatSubscribe sub rid st))
          \<and> controller old \<noteq> fst (chatSubscribe sub rid st)
          \<and> providerSessions (snd (chatSubscribe sub rid st)) sub = None
          \<and> cleanedUp (snd (chatSubscribe sub rid st)) =
               cleanedUp st @ (case providerSessions st sub of None \<Rightarrow> [] | Some p \<Rightarrow> [provider p]))
     \<and> activeStreams (chatFinally sub rid st) =
          (if \<exists>s. activeStreams st sub = Some s \<and> runId s = rid
           then (activeStreams st)(sub := None) else activeStreams st)
     \<and> activeStreams (chatTeardown sub rid c st) =
          (if \<exists>s. activeStreams st sub = Some s \<and> runId s = rid
           then (activeStreams st)(sub := None) else activeStreams st)
     \<and> (\<forall>rid'. rid' \<noteq> rid \<longrightarrow>
          activeStreams (chatFinally sub rid (snd (chatSubscribe sub rid' (snd (chatSubscribe sub rid st))))) sub
            = Some \<lparr>runId = rid', controller = fst (chatSubscribe sub rid' (snd (chatSubscribe sub rid st)))\<rparr>
        \<and> activeStreams (chatTeardown sub rid (fst (chatSubscribe sub rid st))
              (snd (chatSubscribe sub rid' (snd (chatSubscribe sub rid st))))) sub
            = Some \<lparr>runId = rid', controller = fst (chatSubscribe sub rid' (snd (chatSubscribe sub rid st)))\<rparr>)
     \<and> (distinct (subscriptions events) \<longrightarrow>
          (\<forall>r. liveRun (chatRun P events initialChatTrace) r \<longrightarrow>
                 registeredRun (chatRun P events initialChatTrace) r)
        \<and> (\<forall>r r'. liveRun (chatRun P events initialChatTrace) r
                  \<and> liveRun (chatRun P events initialChatTrace) r'
                  \<and> runSubChat r = runSubChat r' \<longrightarrow> r = r'))"
proof (intro conjI allI impI)
  show "activeStreams (snd (chatSubscribe sub rid st)) sub
        = Some \<lparr>runId = rid, controller = fst (chatSubscribe sub rid st)\<rparr>"
    by (simp add: chatSubscribe_registers)
  show "fst (chatSubscribe sub rid st) \<notin> aborted (snd (chatSubscribe sub rid st))"
    by (rule chatSubscribe_fresh [OF wf])
  show "activeStreams (chatFinally sub rid st) =
          (if \<exists>s. activeStreams st sub = Some s \<and> runId s = rid
           then (activeStreams st)(sub := None) else activeStreams st)"
    by (rule chatFinally_streams)
  show "activeStreams (chatTeardown sub rid c st) =
          (if \<exists>s. activeStreams st sub = Some s \<and> runId s = rid
           then (activeStreams st)(sub := None) else activeStreams st)"
    by (rule chatTeardown_streams)
next
  fix old assume old: "activeStreams st sub = Some old"
  show "controller old \<in> aborted (snd (chatSubscribe sub rid st))"
    by (simp add: chatSubscribe_supersede(1) [OF old])
  show "controller old \<noteq> fst (chatSubscribe sub rid st)"
    using wf old by (fastforce simp: wfChat_def chatSubscribe_controller)
  show "providerSessions (snd (chatSubscribe sub rid st)) sub = None"
    by (simp add: chatSubscribe_supersede(2) [OF old])
  show "cleanedUp (snd (chatSubscribe sub rid st)) =
               cleanedUp st @ (case providerSessions st sub of None \<Rightarrow> [] | Some p \<Rightarrow> [provider p])"
    by (rule chatSubscribe_supersede(3) [OF old])
next
  fix rid' assume ne: "rid' \<noteq> rid"
  let ?s1 = "snd (chatSubscribe sub rid st)"
  let ?s2 = "snd (chatSubscribe sub rid' ?s1)"
  have reg: "activeStreams ?s2 sub = Some \<lparr>runId = rid', controller = fst (chatSubscribe sub rid' ?s1)\<rparr>"
    by (simp add: chatSubscribe_registers)
  show "activeStreams (chatFinally sub rid ?s2) sub
          = Some \<lparr>runId = rid', controller = fst (chatSubscribe sub rid' ?s1)\<rparr>"
    using ne reg by (simp add: chatFinally_streams)
  show "activeStreams (chatTeardown sub rid (fst (chatSubscribe sub rid st)) ?s2) sub
          = Some \<lparr>runId = rid', controller = fst (chatSubscribe sub rid' ?s1)\<rparr>"
    using ne reg by (simp add: chatTeardown_streams)
next
  fix r
  assume d: "distinct (subscriptions events)" and l: "liveRun (chatRun P events initialChatTrace) r"
  show "registeredRun (chatRun P events initialChatTrace) r"
    by (rule live_run_registered [OF d l])
next
  fix r r'
  assume d: "distinct (subscriptions events)"
    and l: "liveRun (chatRun P events initialChatTrace) r
                  \<and> liveRun (chatRun P events initialChatTrace) r'
                  \<and> runSubChat r = runSubChat r'"
  show "r = r'"
    using one_live_run [OF d] l by blast
qed

theorem chat_single_active_stream_witness:
  "wfChat exampleChat
   \<and> activeStreams exampleChat ''sub-1'' = Some \<lparr>runId = ''run-1'', controller = 0\<rparr>
   \<and> activeStreams (snd (chatSubscribe ''sub-1'' ''run-2'' exampleChat)) ''sub-1''
       = Some \<lparr>runId = ''run-2'', controller = 1\<rparr>
   \<and> 0 \<in> aborted (snd (chatSubscribe ''sub-1'' ''run-2'' exampleChat))
   \<and> 1 \<notin> aborted (snd (chatSubscribe ''sub-1'' ''run-2'' exampleChat))
   \<and> providerSessions (snd (chatSubscribe ''sub-1'' ''run-2'' exampleChat)) ''sub-1'' = None
   \<and> cleanedUp (snd (chatSubscribe ''sub-1'' ''run-2'' exampleChat)) = [0]
   \<and> activeStreams (chatFinally ''sub-1'' ''run-1'' exampleChat) ''sub-1'' = None
   \<and> activeStreams (chatFinally ''sub-1'' ''run-1''
        (snd (chatSubscribe ''sub-1'' ''run-1b'' (snd (chatSubscribe ''sub-1'' ''run-1'' exampleChat))))) ''sub-1''
       = Some \<lparr>runId = ''run-1b'', controller = 2\<rparr>
   \<and> distinct (subscriptions [Subscribe ''sub-1'' ''run-1'', Subscribe ''sub-1'' ''run-2'', RunEnds 0])
   \<and> liveRun (chatRun linuxX64 [Subscribe ''sub-1'' ''run-1'', Subscribe ''sub-1'' ''run-2'', RunEnds 0]
         initialChatTrace) \<lparr>runSubChat = ''sub-1'', runRunId = ''run-2'', runController = 1\<rparr>
   \<and> registeredRun (chatRun linuxX64 [Subscribe ''sub-1'' ''run-1'', Subscribe ''sub-1'' ''run-2'', RunEnds 0]
         initialChatTrace) \<lparr>runSubChat = ''sub-1'', runRunId = ''run-2'', runController = 1\<rparr>
   \<and> \<not> liveRun (chatRun linuxX64 [Subscribe ''sub-1'' ''run-1'', Subscribe ''sub-1'' ''run-2'', RunEnds 0]
         initialChatTrace) \<lparr>runSubChat = ''sub-1'', runRunId = ''run-1'', runController = 0\<rparr>"
proof -
  let ?events = "[Subscribe ''sub-1'' ''run-1'', Subscribe ''sub-1'' ''run-2'', RunEnds 0]"
  have d: "distinct (subscriptions ?events)"
    by simp
  have l: "liveRun (chatRun linuxX64 ?events initialChatTrace)
             \<lparr>runSubChat = ''sub-1'', runRunId = ''run-2'', runController = 1\<rparr>"
    by code_simp
  have n: "\<not> liveRun (chatRun linuxX64 ?events initialChatTrace)
             \<lparr>runSubChat = ''sub-1'', runRunId = ''run-1'', runController = 0\<rparr>"
    by code_simp
  have g: "registeredRun (chatRun linuxX64 ?events initialChatTrace)
             \<lparr>runSubChat = ''sub-1'', runRunId = ''run-2'', runController = 1\<rparr>"
    by (rule chat_single_active_stream [OF wfChat_exampleChat, where P = linuxX64 and events = ?events,
          THEN conjunct2, THEN conjunct2, THEN conjunct2, THEN conjunct2, THEN conjunct2, THEN conjunct2,
          rule_format, THEN conjunct1, rule_format, OF d l])
  have e: "activeStreams exampleChat ''sub-1'' = Some \<lparr>runId = ''run-1'', controller = 0\<rparr>"
    "providerSessions exampleChat ''sub-1'' = Some \<lparr>provider = 0, cwd = ''/work/a'', authFingerprint = None\<rparr>"
    "cleanedUp exampleChat = []" "nextController exampleChat = 1"
    by (simp_all add: exampleChat_def)
  have c: "fst (chatSubscribe ''sub-1'' ''run-2'' exampleChat) = 1"
    "fst (chatSubscribe ''sub-1'' ''run-1b'' (snd (chatSubscribe ''sub-1'' ''run-1'' exampleChat))) = 2"
    by (simp_all add: chatSubscribe_def exampleChat_def Let_def cleanupProvider_def abort_def)
  show ?thesis
    using wfChat_exampleChat e c d l n g
      chat_single_active_stream [OF wfChat_exampleChat, of "''sub-1''" "''run-2''" 0 "[]" linuxX64]
      chat_single_active_stream [OF wfChat_exampleChat, of "''sub-1''" "''run-1''" 0 "[]" linuxX64]
    by simp
qed

text \<open>
  The claim as it was stated promises this for every run. A caller that starts a second
  run of \<open>sub-1\<close> under the run id of the first makes it fail: the end of the first,
  superseded run finds its own run id in the registry and removes the entry of the
  second, which is then not aborted when a third run starts, so that two runs of
  \<open>sub-1\<close> are live.
\<close>

theorem chat_reused_run_id_counterexample:
  "activeStreams (snd (chatSubscribe ''sub-1'' ''run-1''
       (snd (chatSubscribe ''sub-1'' ''run-1'' initialChatState)))) ''sub-1''
     = Some \<lparr>runId = ''run-1'', controller = 1\<rparr>
   \<and> activeStreams (chatFinally ''sub-1'' ''run-1''
       (snd (chatSubscribe ''sub-1'' ''run-1''
         (snd (chatSubscribe ''sub-1'' ''run-1'' initialChatState))))) ''sub-1'' = None
   \<and> activeStreams (chatTeardown ''sub-1'' ''run-1'' 0
       (snd (chatSubscribe ''sub-1'' ''run-1''
         (snd (chatSubscribe ''sub-1'' ''run-1'' initialChatState))))) ''sub-1'' = None
   \<and> liveRun (chatRun linuxX64
         [Subscribe ''sub-1'' ''run-1'', Subscribe ''sub-1'' ''run-1'', RunEnds 0, Subscribe ''sub-1'' ''run-2'']
         initialChatTrace) \<lparr>runSubChat = ''sub-1'', runRunId = ''run-1'', runController = 1\<rparr>
   \<and> liveRun (chatRun linuxX64
         [Subscribe ''sub-1'' ''run-1'', Subscribe ''sub-1'' ''run-1'', RunEnds 0, Subscribe ''sub-1'' ''run-2'']
         initialChatTrace) \<lparr>runSubChat = ''sub-1'', runRunId = ''run-2'', runController = 2\<rparr>"
  by code_simp

subsection \<open>Cancelling by run id\<close>

lemma cancel_noop_none:
  "activeStreams st sub = None \<Longrightarrow>
     cancel sub rid st = (\<lparr>cancelled = False, ignoredStale = False\<rparr>, st)"
  by (simp add: cancel_def)

lemma cancel_noop_stale:
  "activeStreams st sub = Some s \<Longrightarrow> runId s \<noteq> rid \<Longrightarrow>
     cancel sub rid st = (\<lparr>cancelled = False, ignoredStale = True\<rparr>, st)"
  by (simp add: cancel_def)

lemma cancel_match:
  assumes "activeStreams st sub = Some s" "runId s = rid"
  shows "fst (cancel sub rid st) = \<lparr>cancelled = True, ignoredStale = False\<rparr>"
    and "aborted (snd (cancel sub rid st)) = insert (controller s) (aborted st)"
    and "providerSessions (snd (cancel sub rid st)) = (providerSessions st)(sub := None)"
    and "cleanedUp (snd (cancel sub rid st)) =
           cleanedUp st @ (case providerSessions st sub of None \<Rightarrow> [] | Some p \<Rightarrow> [provider p])"
    and "activeStreams (snd (cancel sub rid st)) = (activeStreams st)(sub := None)"
  using assms
  by (auto simp: cancel_def cleanupProvider_def abort_def Let_def split: option.splits)

text \<open>
  Claim C2. A cancel for a sub-chat id with no registered stream, or with a registered
  stream of another run id, leaves the whole state as it is (so both registries) and
  returns cancelled = false, with ignoredStale = true exactly in the second case. A
  cancel with the registered run id aborts the controller, cleans up and removes the
  provider session, removes the entry and returns cancelled = true.
\<close>

theorem cancel_stale_guard:
  "(activeStreams st sub = None \<longrightarrow>
      cancel sub rid st = (\<lparr>cancelled = False, ignoredStale = False\<rparr>, st))
   \<and> (\<forall>s. activeStreams st sub = Some s \<and> runId s \<noteq> rid \<longrightarrow>
      cancel sub rid st = (\<lparr>cancelled = False, ignoredStale = True\<rparr>, st))
   \<and> (\<forall>s. activeStreams st sub = Some s \<and> runId s = rid \<longrightarrow>
        fst (cancel sub rid st) = \<lparr>cancelled = True, ignoredStale = False\<rparr>
      \<and> aborted (snd (cancel sub rid st)) = insert (controller s) (aborted st)
      \<and> providerSessions (snd (cancel sub rid st)) = (providerSessions st)(sub := None)
      \<and> cleanedUp (snd (cancel sub rid st)) =
           cleanedUp st @ (case providerSessions st sub of None \<Rightarrow> [] | Some p \<Rightarrow> [provider p])
      \<and> activeStreams (snd (cancel sub rid st)) = (activeStreams st)(sub := None))"
proof (intro conjI allI impI)
  show "activeStreams st sub = None \<Longrightarrow>
      cancel sub rid st = (\<lparr>cancelled = False, ignoredStale = False\<rparr>, st)"
    by (rule cancel_noop_none)
next
  fix s assume "activeStreams st sub = Some s \<and> runId s \<noteq> rid"
  then show "cancel sub rid st = (\<lparr>cancelled = False, ignoredStale = True\<rparr>, st)"
    by (simp add: cancel_noop_stale)
next
  fix s assume a: "activeStreams st sub = Some s \<and> runId s = rid"
  then have s: "activeStreams st sub = Some s" and r: "runId s = rid" by simp_all
  note m = cancel_match [OF s r]
  show "fst (cancel sub rid st) = \<lparr>cancelled = True, ignoredStale = False\<rparr>" by (rule m)
  show "aborted (snd (cancel sub rid st)) = insert (controller s) (aborted st)" by (rule m)
  show "providerSessions (snd (cancel sub rid st)) = (providerSessions st)(sub := None)" by (rule m)
  show "cleanedUp (snd (cancel sub rid st)) =
           cleanedUp st @ (case providerSessions st sub of None \<Rightarrow> [] | Some p \<Rightarrow> [provider p])"
    by (rule m)
  show "activeStreams (snd (cancel sub rid st)) = (activeStreams st)(sub := None)" by (rule m)
qed

theorem cancel_stale_guard_witness:
  "activeStreams exampleChat ''sub-2'' = None
   \<and> cancel ''sub-2'' ''run-1'' exampleChat = (\<lparr>cancelled = False, ignoredStale = False\<rparr>, exampleChat)
   \<and> activeStreams exampleChat ''sub-1'' = Some \<lparr>runId = ''run-1'', controller = 0\<rparr>
   \<and> cancel ''sub-1'' ''run-0'' exampleChat = (\<lparr>cancelled = False, ignoredStale = True\<rparr>, exampleChat)
   \<and> fst (cancel ''sub-1'' ''run-1'' exampleChat) = \<lparr>cancelled = True, ignoredStale = False\<rparr>
   \<and> aborted (snd (cancel ''sub-1'' ''run-1'' exampleChat)) = {0}
   \<and> providerSessions (snd (cancel ''sub-1'' ''run-1'' exampleChat)) ''sub-1'' = None
   \<and> cleanedUp (snd (cancel ''sub-1'' ''run-1'' exampleChat)) = [0]
   \<and> activeStreams (snd (cancel ''sub-1'' ''run-1'' exampleChat)) ''sub-1'' = None"
proof -
  have e: "activeStreams exampleChat ''sub-2'' = None"
    "activeStreams exampleChat ''sub-1'' = Some \<lparr>runId = ''run-1'', controller = 0\<rparr>"
    "providerSessions exampleChat ''sub-1'' = Some \<lparr>provider = 0, cwd = ''/work/a'', authFingerprint = None\<rparr>"
    "cleanedUp exampleChat = []" "aborted exampleChat = {}"
    by (simp_all add: exampleChat_def)
  show ?thesis
    using e
      cancel_stale_guard [of exampleChat "''sub-2''" "''run-1''"]
      cancel_stale_guard [of exampleChat "''sub-1''" "''run-0''"]
      cancel_stale_guard [of exampleChat "''sub-1''" "''run-1''"]
    by simp
qed

section \<open>The provider session registry\<close>

lemma getOrCreateProvider_hit:
  assumes "providerSessions st sub = Some ex" "cwd ex = d"
    "authFingerprint ex = getAuthFingerprint P auth"
  shows "getOrCreateProvider P sub d sid auth st = (Inr (provider ex), st)"
  using assms by (simp add: getOrCreateProvider_def Let_def)

lemma getOrCreateProvider_miss_cleanedUp:
  assumes "providerSessions st sub = Some ex"
    "\<not> (cwd ex = d \<and> authFingerprint ex = getAuthFingerprint P auth)"
  shows "cleanedUp (snd (getOrCreateProvider P sub d sid auth st)) = cleanedUp st @ [provider ex]"
  using assms by (auto simp: getOrCreateProvider_def Let_def split: sum.splits)

lemma getOrCreateProvider_miss_created:
  assumes "providerSessions st sub = Some ex"
    "\<not> (cwd ex = d \<and> authFingerprint ex = getAuthFingerprint P auth)"
    "resolveCodexAcpBinaryPath P = Inr bin"
  shows "fst (getOrCreateProvider P sub d sid auth st) = Inr (length (created st))"
    and "providerSessions (snd (getOrCreateProvider P sub d sid auth st)) =
          (providerSessions st)(sub \<mapsto> \<lparr>provider = length (created st), cwd = d,
              authFingerprint = getAuthFingerprint P auth\<rparr>)"
    and "length (created (snd (getOrCreateProvider P sub d sid auth st))) = Suc (length (created st))"
    and "sessionCwd (created (snd (getOrCreateProvider P sub d sid auth st)) ! length (created st)) = d"
  using assms by (auto simp: getOrCreateProvider_def Let_def)

lemma getOrCreateProvider_hit_only:
  assumes "providerSessions st sub = Some ex"
    "getOrCreateProvider P sub d sid auth st = (Inr (provider ex), st)"
  shows "cwd ex = d \<and> authFingerprint ex = getAuthFingerprint P auth"
proof (rule ccontr)
  assume n: "\<not> (cwd ex = d \<and> authFingerprint ex = getAuthFingerprint P auth)"
  have "cleanedUp (snd (getOrCreateProvider P sub d sid auth st)) = cleanedUp st @ [provider ex]"
    by (rule getOrCreateProvider_miss_cleanedUp [OF assms(1) n])
  then show False using assms(2) by simp
qed

text \<open>
  When the path of the binary does not resolve, the call throws. With no cached session
  the state is left as it was; this is the only way the call can throw on a reachable
  state, as the next lemmas show.
\<close>

lemma getOrCreateProvider_throws:
  assumes "providerSessions st sub = None" "resolveCodexAcpBinaryPath P = Inl e"
  shows "getOrCreateProvider P sub d sid auth st = (Inl e, st)"
  using assms by (simp add: getOrCreateProvider_def Let_def)

lemma resolve_linuxX64:
  "resolveCodexAcpBinaryPath linuxX64
     = Inr ''/app/node_modules/@zed-industries/codex-acp-linux-x64/bin/codex-acp''"
  by (simp add: resolveCodexAcpBinaryPath_def getCodexPackageName_def linuxX64_def
      toUnpackedAsarPath_def startsWith_def)

lemma resolve_win32Ia32:
  "resolveCodexAcpBinaryPath win32Ia32 = Inl (UnsupportedPlatform ''win32'' ''ia32'')"
  by (simp add: resolveCodexAcpBinaryPath_def getCodexPackageName_def win32Ia32_def linuxX64_def)

lemma getOrCreateProvider_unsupported:
  "getOrCreateProvider win32Ia32 ''sub-1'' ''/work/a'' None None initialChatState
     = (Inl (UnsupportedPlatform ''win32'' ''ia32''), initialChatState)"
  by (rule getOrCreateProvider_throws) (simp_all add: initialChatState_def resolve_win32Ia32)

subsection \<open>Cached sessions were created on this platform\<close>

lemma wfProviders_initial: "wfProviders P initialChatState"
  by (simp add: wfProviders_def initialChatState_def)

lemma wfProviders_frame:
  assumes "wfProviders P st" "length (created st) \<le> length (created st')"
    "\<And>sub ex. providerSessions st' sub = Some ex \<Longrightarrow> providerSessions st sub = Some ex"
  shows "wfProviders P st'"
  unfolding wfProviders_def
proof (intro allI impI)
  fix sub ex assume "providerSessions st' sub = Some ex"
  then have "providerSessions st sub = Some ex" by (rule assms(3))
  then have "provider ex < length (created st) \<and> (\<exists>bin. resolveCodexAcpBinaryPath P = Inr bin)"
    using assms(1) by (simp add: wfProviders_def)
  then show "provider ex < length (created st') \<and> (\<exists>bin. resolveCodexAcpBinaryPath P = Inr bin)"
    using assms(2) by auto
qed

lemma wfProviders_cleanupProvider: "wfProviders P st \<Longrightarrow> wfProviders P (cleanupProvider sub st)"
  by (erule wfProviders_frame) (auto simp: cleanupProvider_def split: option.splits if_splits)

lemma wfProviders_chatSubscribe: "wfProviders P st \<Longrightarrow> wfProviders P (snd (chatSubscribe sub rid st))"
  by (erule wfProviders_frame)
     (auto simp: chatSubscribe_def Let_def cleanupProvider_def abort_def split: option.splits if_splits)

lemma wfProviders_chatFinally: "wfProviders P st \<Longrightarrow> wfProviders P (chatFinally sub rid st)"
  by (erule wfProviders_frame) (auto simp: chatFinally_def split: if_splits)

lemma wfProviders_chatTeardown: "wfProviders P st \<Longrightarrow> wfProviders P (chatTeardown sub rid c st)"
  by (erule wfProviders_frame) (auto simp: chatTeardown_def Let_def abort_def split: if_splits)

lemma wfProviders_cancel: "wfProviders P st \<Longrightarrow> wfProviders P (snd (cancel sub rid st))"
  by (erule wfProviders_frame)
     (auto simp: cancel_def Let_def cleanupProvider_def abort_def split: option.splits if_splits)

lemma wfProviders_cleanup: "wfProviders P st \<Longrightarrow> wfProviders P (cleanup sub st)"
  by (erule wfProviders_frame)
     (auto simp: cleanup_def Let_def cleanupProvider_def abort_def split: option.splits if_splits)

lemma wfProviders_getOrCreateProvider:
  assumes "wfProviders P st"
  shows "wfProviders P (snd (getOrCreateProvider P sub d sid auth st))"
proof (cases "resolveCodexAcpBinaryPath P")
  case (Inl e)
  show ?thesis
    by (rule wfProviders_frame [OF assms])
       (auto simp: getOrCreateProvider_def Let_def Inl split: option.splits if_splits)
next
  case (Inr bin)
  show ?thesis
    using assms unfolding wfProviders_def
    by (auto simp: getOrCreateProvider_def Let_def Inr less_Suc_eq split: option.splits if_splits)
qed

lemma reachableChat_wfProviders: "reachableChat P st \<Longrightarrow> wfProviders P st"
  by (induction rule: reachableChat.induct)
     (simp_all add: wfProviders_initial wfProviders_chatSubscribe wfProviders_chatFinally
        wfProviders_chatTeardown wfProviders_cleanupProvider wfProviders_getOrCreateProvider
        wfProviders_cancel wfProviders_cleanup)

text \<open>
  Claim C3. On every reachable state, for a sub-chat id with a cached provider session:
  the call returns the cached provider and leaves the state unchanged if and only if
  the stored working directory is the requested one and the stored fingerprint is the
  fingerprint of the supplied key (the SHA-256 hex digest of the trimmed key, or null
  without a key that is non-empty after trimming). In every other case the cached
  provider is cleaned up and removed, and a new provider, other than the cached one, is
  created for the requested directory and stored with the new directory and
  fingerprint.
\<close>

theorem getOrCreateProvider_cache:
  assumes reach: "reachableChat P st" and ex: "providerSessions st sub = Some ex"
  shows
    "(getOrCreateProvider P sub d sid auth st = (Inr (provider ex), st)
        \<longleftrightarrow> cwd ex = d \<and> authFingerprint ex = getAuthFingerprint P auth)
     \<and> getAuthFingerprint P auth =
         (case auth of
            None \<Rightarrow> None
          | Some a \<Rightarrow> if trim (apiKey a) = [] then None else Some (sha256hex P (trim (apiKey a))))
     \<and> (\<not> (cwd ex = d \<and> authFingerprint ex = getAuthFingerprint P auth) \<longrightarrow>
          cleanedUp (snd (getOrCreateProvider P sub d sid auth st)) = cleanedUp st @ [provider ex]
        \<and> fst (getOrCreateProvider P sub d sid auth st) = Inr (length (created st))
        \<and> provider ex \<noteq> length (created st)
        \<and> providerSessions (snd (getOrCreateProvider P sub d sid auth st)) =
            (providerSessions st)(sub \<mapsto> \<lparr>provider = length (created st), cwd = d,
               authFingerprint = getAuthFingerprint P auth\<rparr>)
        \<and> length (created (snd (getOrCreateProvider P sub d sid auth st))) = Suc (length (created st))
        \<and> sessionCwd (created (snd (getOrCreateProvider P sub d sid auth st)) ! length (created st)) = d)"
proof -
  have wf: "provider ex < length (created st)"
    using reachableChat_wfProviders [OF reach] ex by (simp add: wfProviders_def)
  obtain bin where r: "resolveCodexAcpBinaryPath P = Inr bin"
    using reachableChat_wfProviders [OF reach] ex by (auto simp: wfProviders_def)
  show ?thesis
  proof (intro conjI impI)
    show "getOrCreateProvider P sub d sid auth st = (Inr (provider ex), st)
        \<longleftrightarrow> cwd ex = d \<and> authFingerprint ex = getAuthFingerprint P auth"
      using getOrCreateProvider_hit [OF ex] getOrCreateProvider_hit_only [OF ex] by blast
    show "getAuthFingerprint P auth =
         (case auth of
            None \<Rightarrow> None
          | Some a \<Rightarrow> if trim (apiKey a) = [] then None else Some (sha256hex P (trim (apiKey a))))"
      by (simp add: getAuthFingerprint_def Let_def split: option.splits)
  next
    assume n: "\<not> (cwd ex = d \<and> authFingerprint ex = getAuthFingerprint P auth)"
    note m = getOrCreateProvider_miss_created [OF ex n r]
    show "cleanedUp (snd (getOrCreateProvider P sub d sid auth st)) = cleanedUp st @ [provider ex]"
      by (rule getOrCreateProvider_miss_cleanedUp [OF ex n])
    show "fst (getOrCreateProvider P sub d sid auth st) = Inr (length (created st))" by (rule m)
    show "provider ex \<noteq> length (created st)" using wf by simp
    show "providerSessions (snd (getOrCreateProvider P sub d sid auth st)) =
            (providerSessions st)(sub \<mapsto> \<lparr>provider = length (created st), cwd = d,
               authFingerprint = getAuthFingerprint P auth\<rparr>)" by (rule m)
    show "length (created (snd (getOrCreateProvider P sub d sid auth st))) = Suc (length (created st))"
      by (rule m)
    show "sessionCwd (created (snd (getOrCreateProvider P sub d sid auth st)) ! length (created st)) = d"
      by (rule m)
  qed
qed

theorem getOrCreateProvider_cache_witness:
  "reachableChat linuxX64 exampleChat
   \<and> providerSessions exampleChat ''sub-1''
      = Some \<lparr>provider = 0, cwd = ''/work/a'', authFingerprint = None\<rparr>
   \<and> getOrCreateProvider linuxX64 ''sub-1'' ''/work/a'' None None exampleChat = (Inr 0, exampleChat)
   \<and> getAuthFingerprint linuxX64 (Some \<lparr>apiKey = '' sk-1 ''\<rparr>) = Some ''sha256:sk-1''
   \<and> fst (getOrCreateProvider linuxX64 ''sub-1'' ''/work/a'' None (Some \<lparr>apiKey = '' sk-1 ''\<rparr>) exampleChat)
       = Inr 1
   \<and> providerSessions
        (snd (getOrCreateProvider linuxX64 ''sub-1'' ''/work/a'' None (Some \<lparr>apiKey = '' sk-1 ''\<rparr>) exampleChat))
        ''sub-1''
       = Some \<lparr>provider = 1, cwd = ''/work/a'', authFingerprint = Some ''sha256:sk-1''\<rparr>
   \<and> cleanedUp
        (snd (getOrCreateProvider linuxX64 ''sub-1'' ''/work/a'' None (Some \<lparr>apiKey = '' sk-1 ''\<rparr>) exampleChat))
       = [0]
   \<and> providerSessions (snd (getOrCreateProvider linuxX64 ''sub-1'' ''/work/b'' None None exampleChat)) ''sub-1''
       = Some \<lparr>provider = 1, cwd = ''/work/b'', authFingerprint = None\<rparr>"
proof -
  have e: "providerSessions exampleChat ''sub-1''
      = Some \<lparr>provider = 0, cwd = ''/work/a'', authFingerprint = None\<rparr>"
    "cleanedUp exampleChat = []" "length (created exampleChat) = 1"
    by (simp_all add: exampleChat_def)
  have t: "trim '' sk-1 '' = ''sk-1''"
    by (simp add: trim_def isWhiteSpace_def)
  have h: "sha256hex linuxX64 ''sk-1'' = ''sha256:sk-1''"
    by (simp add: linuxX64_def)
  note c = getOrCreateProvider_cache [OF reachableChat_exampleChat e(1)]
  show ?thesis
    using reachableChat_exampleChat e(2,3) t h
      c [where d = "''/work/a''" and sid = None and auth = None]
      c [where d = "''/work/a''" and sid = None and auth = "Some \<lparr>apiKey = '' sk-1 ''\<rparr>"]
      c [where d = "''/work/b''" and sid = None and auth = None]
    by (simp add: e(1))
qed

section \<open>Login sessions: what each step does\<close>

lemma nth_update_total: "xs[i := x] ! j = (if i = j \<and> i < length xs then x else xs ! j)"
  by (cases "i < length xs") (auto simp: nth_list_update list_update_beyond)

lemma appendLoginOutput_output:
  "output (appendLoginOutput P s chunk) = output s @ stripAnsi chunk"
  by (simp add: appendLoginOutput_def Let_def)

lemma appendLoginOutput_fields:
  "id' (appendLoginOutput P s chunk) = id' s"
  "process (appendLoginOutput P s chunk) = process s"
  "state (appendLoginOutput P s chunk) = state s"
  "error (appendLoginOutput P s chunk) = error s"
  "exitCode (appendLoginOutput P s chunk) = exitCode s"
  by (simp_all add: appendLoginOutput_def Let_def)

lemma appendLoginOutput_url_sticky:
  "url s = Some u \<Longrightarrow> u \<noteq> [] \<Longrightarrow> url (appendLoginOutput P s chunk) = Some u"
  by (simp add: appendLoginOutput_def Let_def)

lemma appendLoginOutput_url_rescan:
  "url s = None \<Longrightarrow> stripAnsi chunk \<noteq> [] \<Longrightarrow>
     url (appendLoginOutput P s chunk) = extractFirstNonLocalhostUrl P (output s @ stripAnsi chunk)"
  by (simp add: appendLoginOutput_def Let_def)

lemma appendLoginOutput_empty:
  "stripAnsi chunk = [] \<Longrightarrow> appendLoginOutput P s chunk = s"
  by (simp add: appendLoginOutput_def Let_def)

text \<open>What a step does to the session objects that exist.\<close>

lemma snd_cancelLoginResponse: "snd (cancelLoginResponse r st) = st"
  by (simp add: cancelLoginResponse_def)

lemma frame_cancelLogin:
  "loginSessions (snd (cancelLogin sid d st)) = loginSessions st"
  "length (objects (snd (cancelLogin sid d st))) = length (objects st)"
  by (cases d; simp add: cancelLogin_def Let_def snd_cancelLoginResponse onError_def split: option.splits)+

lemma length_objects_step: "length (objects st) \<le> length (objects (loginStep P e st))"
  by (cases e)
     (auto simp: startLogin_def frame_cancelLogin onData_def onError_def onClose_def Let_def
        split: option.splits sum.splits)

lemma sessionAt_startLogin:
  "sessionAt st r = Some s \<Longrightarrow> sessionAt (snd (startLogin P sid st)) r = Some s"
  by (auto simp: sessionAt_def startLogin_def Let_def nth_append split: option.splits sum.splits if_splits)

lemma sessionAt_onData:
  "sessionAt st r = Some s \<Longrightarrow>
     sessionAt (onData P r' chunk st) r = Some (if r' = r then appendLoginOutput P s chunk else s)"
  by (auto simp: sessionAt_def onData_def Let_def split: if_splits)

lemma sessionAt_onError:
  "sessionAt st r = Some s \<Longrightarrow>
     \<exists>s'. sessionAt (onError r' m st) r = Some s' \<and> output s' = output s \<and> url s' = url s
        \<and> id' s' = id' s"
  by (auto simp: sessionAt_def onError_def Let_def nth_update_total split: if_splits)

lemma sessionAt_onClose:
  "sessionAt st r = Some s \<Longrightarrow>
     \<exists>s'. sessionAt (onClose r' c st) r = Some s' \<and> output s' = output s \<and> url s' = url s
        \<and> id' s' = id' s"
  by (auto simp: sessionAt_def onClose_def Let_def nth_update_total split: if_splits)

lemma sessionAt_cancelLogin:
  "sessionAt st r = Some s \<Longrightarrow>
     \<exists>s'. sessionAt (snd (cancelLogin sid d st)) r = Some s' \<and> output s' = output s \<and> url s' = url s
        \<and> id' s' = id' s"
  by (cases d)
     (auto simp: sessionAt_def cancelLogin_def snd_cancelLoginResponse onError_def Let_def
        nth_update_total split: if_splits option.splits)

lemma step_output_url:
  assumes "sessionAt st r = Some s"
  shows "\<exists>s'. sessionAt (loginStep P e st) r = Some s' \<and> id' s' = id' s
           \<and> prefix (output s) (output s')
           \<and> (\<forall>u. url s = Some u \<and> u \<noteq> [] \<longrightarrow> url s' = Some u)"
proof (cases e)
  case (StartLogin sid)
  then show ?thesis using sessionAt_startLogin [OF assms] by simp
next
  case (GetLoginSession sid)
  then show ?thesis using assms by simp
next
  case (CancelLogin sid d)
  then show ?thesis using sessionAt_cancelLogin [OF assms, of sid d] by auto
next
  case (ChildData r' chunk)
  then show ?thesis
    using sessionAt_onData [OF assms, of P r' chunk]
    by (auto simp: appendLoginOutput_output appendLoginOutput_fields appendLoginOutput_url_sticky)
next
  case (ChildError r' m)
  then show ?thesis using sessionAt_onError [OF assms, of r' m] by auto
next
  case (ChildClose r' c)
  then show ?thesis using sessionAt_onClose [OF assms, of r' c] by auto
qed

lemma runLogin_Nil: "runLogin P [] st = st"
  by (simp add: runLogin_def)

lemma runLogin_Cons: "runLogin P (e # es) st = runLogin P es (loginStep P e st)"
  by (simp add: runLogin_def)

lemma runLogin_append: "runLogin P (es @ es') st = runLogin P es' (runLogin P es st)"
  by (simp add: runLogin_def)

lemma run_output_url:
  "sessionAt st r = Some s \<Longrightarrow>
     \<exists>s'. sessionAt (runLogin P es st) r = Some s' \<and> id' s' = id' s
        \<and> prefix (output s) (output s')
        \<and> (\<forall>u. url s = Some u \<and> u \<noteq> [] \<longrightarrow> url s' = Some u)"
proof (induction es arbitrary: st s)
  case Nil
  then show ?case by (simp add: runLogin_Nil)
next
  case (Cons e es)
  from step_output_url [OF Cons.prems, of P e]
  obtain s1 where s1: "sessionAt (loginStep P e st) r = Some s1" "id' s1 = id' s"
      "prefix (output s) (output s1)" "\<forall>u. url s = Some u \<and> u \<noteq> [] \<longrightarrow> url s1 = Some u"
    by blast
  from Cons.IH [OF s1(1)]
  obtain s2 where s2: "sessionAt (runLogin P es (loginStep P e st)) r = Some s2" "id' s2 = id' s1"
      "prefix (output s1) (output s2)" "\<forall>u. url s1 = Some u \<and> u \<noteq> [] \<longrightarrow> url s2 = Some u"
    by blast
  show ?case
    using s1 s2 by (auto simp: runLogin_Cons intro: prefix_order.trans)
qed

subsection \<open>The invariant of the login state\<close>

lemma update_values_subset: "snd ` set (AList.update k v al) \<subseteq> insert v (snd ` set al)"
  by (induction al) auto

lemma update_value_in: "v \<in> snd ` set (AList.update k v al)"
  by (induction al) auto

lemma map_of_update_other: "k' \<noteq> k \<Longrightarrow> map_of (AList.update k v al) k' = map_of al k'"
  by (simp add: update_conv')

lemma activeAt_lt: "activeAt st r \<Longrightarrow> r < length (objects st)"
  by (auto simp: activeAt_def sessionAt_def split: if_splits)

lemma getActive_None: "getActiveLoginSession st = None \<Longrightarrow> r \<in> snd ` set (loginSessions st) \<Longrightarrow> \<not> activeAt st r"
  by (auto simp: getActiveLoginSession_def find_None_iff)

lemma getActive_Some: "getActiveLoginSession st = Some r \<Longrightarrow> activeAt st r \<and> r \<in> snd ` set (loginSessions st)"
  unfolding getActiveLoginSession_def find_Some_iff
  by (metis length_map nth_map nth_mem set_map)

lemma getActive_complete:
  assumes "loginInv st" "activeAt st r"
  shows "getActiveLoginSession st = Some r"
proof (cases "getActiveLoginSession st")
  case None
  have "r \<in> snd ` set (loginSessions st)"
    using assms by (simp add: loginInv_def)
  then have "\<not> activeAt st r" by (rule getActive_None [OF None])
  then show ?thesis using assms(2) by simp
next
  case (Some r0)
  have "activeAt st r0" using getActive_Some [OF Some] by simp
  then have "r0 = r" using assms by (simp add: loginInv_def)
  then show ?thesis using Some by simp
qed

lemma startLogin_reuse:
  assumes "getActiveLoginSession st = Some r"
  shows "startLogin P sid st = (Inr (toLoginSessionResponse (session (objects st ! r))), st)"
  using assms by (simp add: startLogin_def)

lemma startLogin_throw:
  assumes "getActiveLoginSession st = None" "resolveBundledCodexCliPath P = Inl e"
  shows "startLogin P sid st = (Inl e, st)"
  using assms by (simp add: startLogin_def)

lemma startLogin_create:
  assumes "getActiveLoginSession st = None" "resolveBundledCodexCliPath P = Inr path"
  shows "fst (startLogin P sid st) = Inr (toLoginSessionResponse (newSession sid))"
    and "objects (snd (startLogin P sid st)) =
           objects st @ [\<lparr>session = newSession sid, errorListener = True, closeListener = True\<rparr>]"
    and "loginSessions (snd (startLogin P sid st)) = AList.update sid (length (objects st)) (loginSessions st)"
  using assms by (simp_all add: startLogin_def Let_def newSession_def)

lemma startLogin_cases:
  "snd (startLogin P sid st) = st \<or>
   (getActiveLoginSession st = None
    \<and> objects (snd (startLogin P sid st)) =
           objects st @ [\<lparr>session = newSession sid, errorListener = True, closeListener = True\<rparr>]
    \<and> loginSessions (snd (startLogin P sid st)) = AList.update sid (length (objects st)) (loginSessions st))"
proof (cases "getActiveLoginSession st")
  case None
  show ?thesis
  proof (cases "resolveBundledCodexCliPath P")
    case (Inl e)
    then show ?thesis using None startLogin_throw by simp
  next
    case (Inr path)
    then show ?thesis
      using None startLogin_create(2) [OF None Inr] startLogin_create(3) [OF None Inr] by simp
  qed
next
  case (Some r)
  then show ?thesis by (simp add: startLogin_reuse)
qed

lemma isActive_newSession: "isActive (newSession sid)"
  by (simp add: isActive_def newSession_def)

lemma sessionAt_append:
  assumes "objects st' = objects st @ [obj]"
  shows "sessionAt st' r =
           (if r < length (objects st) then sessionAt st r
            else if r = length (objects st) then Some (session obj) else None)"
  using assms by (simp add: sessionAt_def nth_append)

lemma activeAt_append:
  assumes "objects st' = objects st @ [obj]" "isActive (session obj)"
  shows "activeAt st' r = (if r < length (objects st) then activeAt st r else r = length (objects st))"
  using assms(2) by (simp add: activeAt_def sessionAt_append [OF assms(1)])

lemma loginInv_create:
  assumes inv: "loginInv st"
    and none: "getActiveLoginSession st = None"
    and obj: "objects st' = objects st @ [obj]" and act: "isActive (session obj)"
    and reg: "loginSessions st' = AList.update sid (length (objects st)) (loginSessions st)"
  shows "loginInv st'"
proof -
  have n: "\<not> activeAt st r" for r
  proof
    assume a: "activeAt st r"
    with inv have "r \<in> snd ` set (loginSessions st)" by (simp add: loginInv_def)
    with none a show False using getActive_None by blast
  qed
  have a': "activeAt st' r \<longleftrightarrow> r = length (objects st)" for r
    using n [of r] by (simp add: activeAt_append [OF obj act])
  have wf: "wfLogin st'"
    unfolding wfLogin_def
  proof
    fix r assume "r \<in> snd ` set (loginSessions st')"
    then have "r \<in> insert (length (objects st)) (snd ` set (loginSessions st))"
      using update_values_subset [of sid "length (objects st)" "loginSessions st"] reg by auto
    moreover have "\<And>x. x \<in> snd ` set (loginSessions st) \<Longrightarrow> x < length (objects st)"
      using inv by (auto simp: loginInv_def wfLogin_def)
    ultimately show "r < length (objects st')"
      using obj by (auto simp: less_Suc_eq)
  qed
  have r: "length (objects st) \<in> snd ` set (loginSessions st')"
    unfolding reg by (rule update_value_in)
  show ?thesis
    unfolding loginInv_def using wf r by (simp add: a')
qed

lemma loginInv_startLogin:
  assumes inv: "loginInv st"
  shows "loginInv (snd (startLogin P sid st))"
proof -
  from startLogin_cases [of P sid st] show ?thesis
  proof
    assume "snd (startLogin P sid st) = st"
    then show ?thesis using inv by simp
  next
    assume c: "getActiveLoginSession st = None
      \<and> objects (snd (startLogin P sid st)) =
           objects st @ [\<lparr>session = newSession sid, errorListener = True, closeListener = True\<rparr>]
      \<and> loginSessions (snd (startLogin P sid st)) = AList.update sid (length (objects st)) (loginSessions st)"
    show ?thesis
      by (rule loginInv_create [OF inv conjunct1 [OF c] conjunct1 [OF conjunct2 [OF c]] _
            conjunct2 [OF conjunct2 [OF c]]])
         (simp add: isActive_newSession)
  qed
qed

lemma activeAt_onData: "activeAt (onData P r' chunk st) r = activeAt st r"
  by (auto simp: activeAt_def sessionAt_def onData_def Let_def nth_update_total isActive_def
      appendLoginOutput_fields)

lemma activeAt_onError: "activeAt (onError r' m st) r \<Longrightarrow> activeAt st r"
  by (auto simp: activeAt_def sessionAt_def onError_def Let_def nth_update_total isActive_def
      split: if_splits)

lemma activeAt_onClose: "activeAt (onClose r' c st) r \<Longrightarrow> activeAt st r"
  by (auto simp: activeAt_def sessionAt_def onClose_def Let_def nth_update_total isActive_def
      split: if_splits)

lemma activeAt_cancelLogin: "activeAt (snd (cancelLogin sid d st)) r \<Longrightarrow> activeAt st r"
  by (cases d)
     (auto simp: activeAt_def sessionAt_def cancelLogin_def snd_cancelLoginResponse onError_def Let_def
        nth_update_total isActive_def split: if_splits option.splits)

lemma loginInv_shrink:
  assumes "loginInv st" "loginSessions st' = loginSessions st" "length (objects st') = length (objects st)"
    "\<And>r. activeAt st' r \<Longrightarrow> activeAt st r"
  shows "loginInv st'"
  using assms unfolding loginInv_def wfLogin_def by metis

lemma frame_onData:
  "loginSessions (onData P r chunk st) = loginSessions st"
  "length (objects (onData P r chunk st)) = length (objects st)"
  by (simp_all add: onData_def Let_def)

lemma frame_onError:
  "loginSessions (onError r m st) = loginSessions st"
  "length (objects (onError r m st)) = length (objects st)"
  by (simp_all add: onError_def Let_def)

lemma frame_onClose:
  "loginSessions (onClose r c st) = loginSessions st"
  "length (objects (onClose r c st)) = length (objects st)"
  by (simp_all add: onClose_def Let_def)

lemma loginInv_step:
  assumes i: "loginInv st"
  shows "loginInv (loginStep P e st)"
proof (cases e)
  case (StartLogin sid)
  then show ?thesis using i by (simp add: loginInv_startLogin)
next
  case (GetLoginSession sid)
  then show ?thesis using i by simp
next
  case (CancelLogin sid d)
  have "loginInv (snd (cancelLogin sid d st))"
    by (rule loginInv_shrink [OF i frame_cancelLogin activeAt_cancelLogin])
  then show ?thesis using CancelLogin by simp
next
  case (ChildData r' chunk)
  have "loginInv (onData P r' chunk st)"
    by (rule loginInv_shrink [OF i frame_onData]) (simp add: activeAt_onData)
  then show ?thesis using ChildData by simp
next
  case (ChildError r' m)
  have "loginInv (onError r' m st)"
    by (rule loginInv_shrink [OF i frame_onError activeAt_onError])
  then show ?thesis using ChildError by simp
next
  case (ChildClose r' c)
  have "loginInv (onClose r' c st)"
    by (rule loginInv_shrink [OF i frame_onClose activeAt_onClose])
  then show ?thesis using ChildClose by simp
qed

lemma loginInv_initial: "loginInv initialLoginState"
  by (simp add: loginInv_def wfLogin_def initialLoginState_def activeAt_def sessionAt_def)

lemma loginInv_run: "loginInv st \<Longrightarrow> loginInv (runLogin P es st)"
  by (induction es arbitrary: st) (simp_all add: runLogin_Nil runLogin_Cons loginInv_step)

subsection \<open>URL extraction\<close>

lemma firstNonLocalhost_find:
  "firstNonLocalhost P ms =
     map_option href (find (\<lambda>u. \<not> isLocalhostHostname (hostname u))
       (List.map_filter (\<lambda>m. parseUrl P (stripFirst TRAILING_PUNCTUATION_REGEX (trim m))) ms))"
  by (induction ms) (auto simp: map_filter_simps split: option.splits)

lemma firstNonLocalhost_nonempty:
  "hrefNonEmpty P \<Longrightarrow> firstNonLocalhost P ms \<noteq> Some []"
  by (induction ms) (auto simp: hrefNonEmpty_def split: option.splits)

lemma extract_nonempty: "hrefNonEmpty P \<Longrightarrow> extractFirstNonLocalhostUrl P out \<noteq> Some []"
  by (simp add: extractFirstNonLocalhostUrl_def firstNonLocalhost_nonempty)

lemma stripAnsi_Nil: "stripAnsi [] = []"
  by (simp add: stripAnsi_def)

lemma extract_Nil: "extractFirstNonLocalhostUrl P [] = None"
  by (simp add: extractFirstNonLocalhostUrl_def stripAnsi_Nil)

lemma urlInv_newSession: "urlInv P (newSession sid)"
  by (simp add: urlInv_def newSession_def extract_Nil)

lemma urlInv_append:
  assumes "hrefNonEmpty P" "urlInv P s"
  shows "urlInv P (appendLoginOutput P s chunk)"
  using assms extract_nonempty [OF assms(1)]
  by (auto simp: urlInv_def appendLoginOutput_def Let_def)

lemma appendLoginOutput_rescan:
  assumes "urlInv P s" "url s = None"
  shows "url (appendLoginOutput P s chunk) =
           extractFirstNonLocalhostUrl P (output (appendLoginOutput P s chunk))"
  using assms by (auto simp: urlInv_def appendLoginOutput_def Let_def)

lemma isLocalhostHostname_iff:
  "isLocalhostHostname h \<longleftrightarrow>
     toLowerCase (trim h) \<in> {''localhost'', ''127.0.0.1'', ''::1'', ''[::1]''}
     \<or> suffix ''.localhost'' (toLowerCase (trim h))"
proof -
  have "endsWith s p \<longleftrightarrow> suffix p s" for s p :: string
    unfolding endsWith_def suffix_def
    by (metis append_eq_conv_conj append_take_drop_id diff_add_inverse2 le_add2 length_append)
  then show ?thesis by (auto simp: isLocalhostHostname_def Let_def)
qed

lemma urlInv_cong: "url s' = url s \<Longrightarrow> output s' = output s \<Longrightarrow> urlInv P s \<Longrightarrow> urlInv P s'"
  by (simp add: urlInv_def)

lemma sessionAt_None_frame:
  "length (objects st') = length (objects st) \<Longrightarrow> sessionAt st r = None \<Longrightarrow> sessionAt st' r = None"
  by (simp add: sessionAt_def split: if_splits)

lemma allUrlInv_step:
  assumes h: "hrefNonEmpty P" and inv: "allUrlInv P st"
  shows "allUrlInv P (loginStep P e st)"
  unfolding allUrlInv_def
proof (intro allI impI)
  fix r s' assume s': "sessionAt (loginStep P e st) r = Some s'"
  show "urlInv P s'"
  proof (cases "sessionAt st r")
    case (Some s)
    then have iv: "urlInv P s" using inv by (simp add: allUrlInv_def)
    show ?thesis
    proof (cases e)
      case (StartLogin sid)
      then show ?thesis using sessionAt_startLogin [OF Some, of P sid] s' iv by simp
    next
      case (GetLoginSession sid)
      then show ?thesis using Some s' iv by simp
    next
      case (CancelLogin sid d)
      then show ?thesis using sessionAt_cancelLogin [OF Some, of sid d] s' iv
        by (auto intro: urlInv_cong)
    next
      case (ChildData r' chunk)
      then show ?thesis using sessionAt_onData [OF Some, of P r' chunk] s' iv
        by (auto simp: urlInv_append [OF h] split: if_splits)
    next
      case (ChildError r' m)
      then show ?thesis using sessionAt_onError [OF Some, of r' m] s' iv
        by (auto intro: urlInv_cong)
    next
      case (ChildClose r' c)
      then show ?thesis using sessionAt_onClose [OF Some, of r' c] s' iv
        by (auto intro: urlInv_cong)
    qed
  next
    case None
    show ?thesis
    proof (cases e)
      case (StartLogin sid)
      from startLogin_cases [of P sid st] show ?thesis
      proof
        assume "snd (startLogin P sid st) = st"
        then show ?thesis using StartLogin s' None by simp
      next
        assume c: "getActiveLoginSession st = None
          \<and> objects (snd (startLogin P sid st)) =
           objects st @ [\<lparr>session = newSession sid, errorListener = True, closeListener = True\<rparr>]
          \<and> loginSessions (snd (startLogin P sid st)) = AList.update sid (length (objects st)) (loginSessions st)"
        have "sessionAt (snd (startLogin P sid st)) r =
           (if r < length (objects st) then sessionAt st r
            else if r = length (objects st) then Some (newSession sid) else None)"
          using sessionAt_append [OF conjunct1 [OF conjunct2 [OF c]], of r] by simp
        then have "s' = newSession sid"
          using s' None StartLogin by (simp split: if_splits)
        then show ?thesis by (simp add: urlInv_newSession)
      qed
    next
      case (GetLoginSession sid)
      then show ?thesis using None s' by simp
    next
      case (CancelLogin sid d)
      then show ?thesis using sessionAt_None_frame [OF frame_cancelLogin(2) None, of sid d] s' by simp
    next
      case (ChildData r' chunk)
      then show ?thesis using sessionAt_None_frame [OF frame_onData(2) None, of P r' chunk] s' by simp
    next
      case (ChildError r' m)
      then show ?thesis using sessionAt_None_frame [OF frame_onError(2) None, of r' m] s' by simp
    next
      case (ChildClose r' c)
      then show ?thesis using sessionAt_None_frame [OF frame_onClose(2) None, of r' c] s' by simp
    qed
  qed
qed

lemma allUrlInv_initial: "allUrlInv P initialLoginState"
  by (simp add: allUrlInv_def sessionAt_def initialLoginState_def)

lemma allUrlInv_run: "hrefNonEmpty P \<Longrightarrow> allUrlInv P st \<Longrightarrow> allUrlInv P (runLogin P es st)"
  by (induction es arbitrary: st) (simp_all add: runLogin_Nil runLogin_Cons allUrlInv_step)

lemma map_of_step:
  "e \<noteq> StartLogin sid \<Longrightarrow> map_of (loginSessions (loginStep P e st)) sid = map_of (loginSessions st) sid"
proof (cases e)
  case (StartLogin sid')
  assume "e \<noteq> StartLogin sid"
  then have ne: "sid \<noteq> sid'" using StartLogin by simp
  from startLogin_cases [of P sid' st] show ?thesis
  proof
    assume "snd (startLogin P sid' st) = st"
    then show ?thesis using StartLogin by simp
  next
    assume "getActiveLoginSession st = None
          \<and> objects (snd (startLogin P sid' st)) =
           objects st @ [\<lparr>session = newSession sid', errorListener = True, closeListener = True\<rparr>]
          \<and> loginSessions (snd (startLogin P sid' st)) = AList.update sid' (length (objects st)) (loginSessions st)"
    then show ?thesis using StartLogin ne by (simp add: map_of_update_other)
  qed
qed (simp_all add: frame_cancelLogin frame_onData frame_onError frame_onClose)

lemma map_of_run:
  "StartLogin sid \<notin> set es \<Longrightarrow> map_of (loginSessions (runLogin P es st)) sid = map_of (loginSessions st) sid"
proof (induction es arbitrary: st)
  case Nil
  then show ?case by (simp add: runLogin_Nil)
next
  case (Cons e es)
  then have "e \<noteq> StartLogin sid" "StartLogin sid \<notin> set es" by auto
  then show ?case using Cons.IH [of "loginStep P e st"] map_of_step [of e sid P st]
    by (simp add: runLogin_Cons)
qed

lemma getLoginSession_Inr:
  "getLoginSession sid st = Inr a \<longleftrightarrow>
     (\<exists>r. map_of (loginSessions st) sid = Some r \<and> a = toLoginSessionResponse (session (objects st ! r)))"
  by (auto simp: getLoginSession_def split: option.splits)

lemma sessionAt_Some: "sessionAt st r = Some s \<longleftrightarrow> r < length (objects st) \<and> s = session (objects st ! r)"
  by (auto simp: sessionAt_def)

lemma poll_grows:
  assumes wf: "wfLogin st" and fresh: "StartLogin sid \<notin> set es"
    and a: "getLoginSession sid st = Inr a"
  shows "\<exists>b. getLoginSession sid (runLogin P es st) = Inr b \<and> sessionId b = sessionId a
           \<and> prefix (resOutput a) (resOutput b)"
proof -
  from a obtain r where r: "map_of (loginSessions st) sid = Some r"
    and ar: "a = toLoginSessionResponse (session (objects st ! r))"
    by (auto simp: getLoginSession_Inr)
  have "r \<in> snd ` set (loginSessions st)"
    using r by (metis map_of_SomeD image_eqI snd_conv)
  then have lt: "r < length (objects st)" using wf by (auto simp: wfLogin_def)
  then have s: "sessionAt st r = Some (session (objects st ! r))" by (simp add: sessionAt_def)
  from run_output_url [OF s, of P es]
  obtain s' where s': "sessionAt (runLogin P es st) r = Some s'" "id' s' = id' (session (objects st ! r))"
      "prefix (output (session (objects st ! r))) (output s')"
    by blast
  have m: "map_of (loginSessions (runLogin P es st)) sid = Some r"
    using map_of_run [OF fresh, of P st] r by simp
  have "getLoginSession sid (runLogin P es st) = Inr (toLoginSessionResponse s')"
    using m s'(1) by (simp add: getLoginSession_def sessionAt_Some)
  then show ?thesis
    using s'(2,3) ar by (simp add: toLoginSessionResponse_def)
qed

section \<open>Login sessions: the claims\<close>

lemma hrefNonEmpty_linuxX64: "hrefNonEmpty linuxX64"
  by (simp add: hrefNonEmpty_def linuxX64_def)

lemma loginInv_reachable: "loginInv (runLogin P events initialLoginState)"
  by (rule loginInv_run [OF loginInv_initial])

lemma allUrlInv_reachable: "hrefNonEmpty P \<Longrightarrow> allUrlInv P (runLogin P events initialLoginState)"
  by (rule allUrlInv_run [OF _ allUrlInv_initial])

lemma url_sticky_reachable:
  assumes h: "hrefNonEmpty P"
    and s: "sessionAt (runLogin P events initialLoginState) r = Some s" and u: "url s = Some u"
  shows "\<exists>s'. sessionAt (runLogin P (events @ events') initialLoginState) r = Some s' \<and> url s' = Some u"
proof -
  have "urlInv P s"
    using allUrlInv_reachable [OF h, of events] s by (simp add: allUrlInv_def)
  then have ne: "u \<noteq> []" using u by (auto simp: urlInv_def)
  from run_output_url [OF s, of P events']
  show ?thesis using u ne by (auto simp: runLogin_append)
qed

text \<open>
  Claim C4. The parser's serialisations being non-empty, for every session of every
  reachable login state: while its url is null, after each chunk the url is the result
  of scanning the whole accumulated output (the old output followed by the stripped
  chunk); the scan returns the serialisation of the first URL candidate that parses and
  whose hostname is not a localhost name (after trimming and lower-casing: localhost,
  127.0.0.1, ::1, [::1], or a name ending in .localhost), or null when there is none;
  once the url is not null, no later event changes it; so the url of a session changes
  at most once, from null.
\<close>

theorem login_url_sticky:
  assumes h: "hrefNonEmpty P"
  shows
    "(\<forall>events r s chunk.
        sessionAt (runLogin P events initialLoginState) r = Some s \<and> url s = None \<longrightarrow>
          output (appendLoginOutput P s chunk) = output s @ stripAnsi chunk
        \<and> url (appendLoginOutput P s chunk) =
            extractFirstNonLocalhostUrl P (output (appendLoginOutput P s chunk)))
     \<and> (\<forall>out. extractFirstNonLocalhostUrl P out =
          map_option href (find (\<lambda>u. \<not> isLocalhostHostname (hostname u))
            (List.map_filter (\<lambda>m. parseUrl P (stripFirst TRAILING_PUNCTUATION_REGEX (trim m)))
               (matchAll URL_CANDIDATE_REGEX (stripAnsi out)))))
     \<and> (\<forall>name. isLocalhostHostname name \<longleftrightarrow>
          toLowerCase (trim name) \<in> {''localhost'', ''127.0.0.1'', ''::1'', ''[::1]''}
          \<or> suffix ''.localhost'' (toLowerCase (trim name)))
     \<and> (\<forall>events events' r s u.
          sessionAt (runLogin P events initialLoginState) r = Some s \<and> url s = Some u \<longrightarrow>
            (\<exists>s'. sessionAt (runLogin P (events @ events') initialLoginState) r = Some s'
                  \<and> url s' = Some u))
     \<and> (\<forall>events events' events'' r s s' s''.
          sessionAt (runLogin P events initialLoginState) r = Some s
          \<and> sessionAt (runLogin P (events @ events') initialLoginState) r = Some s'
          \<and> sessionAt (runLogin P (events @ events' @ events'') initialLoginState) r = Some s''
          \<and> url s' \<noteq> url s \<longrightarrow> url s = None \<and> url s'' = url s')"
proof (intro conjI allI impI)
  fix events r s chunk
  assume a: "sessionAt (runLogin P events initialLoginState) r = Some s \<and> url s = None"
  then have i: "urlInv P s"
    using allUrlInv_reachable [OF h, of events] by (auto simp: allUrlInv_def)
  show "output (appendLoginOutput P s chunk) = output s @ stripAnsi chunk"
    by (rule appendLoginOutput_output)
  show "url (appendLoginOutput P s chunk) =
            extractFirstNonLocalhostUrl P (output (appendLoginOutput P s chunk))"
    using a by (simp add: appendLoginOutput_rescan [OF i])
next
  fix out
  show "extractFirstNonLocalhostUrl P out =
          map_option href (find (\<lambda>u. \<not> isLocalhostHostname (hostname u))
            (List.map_filter (\<lambda>m. parseUrl P (stripFirst TRAILING_PUNCTUATION_REGEX (trim m)))
               (matchAll URL_CANDIDATE_REGEX (stripAnsi out))))"
    by (simp add: extractFirstNonLocalhostUrl_def firstNonLocalhost_find)
next
  fix name
  show "isLocalhostHostname name \<longleftrightarrow>
          toLowerCase (trim name) \<in> {''localhost'', ''127.0.0.1'', ''::1'', ''[::1]''}
          \<or> suffix ''.localhost'' (toLowerCase (trim name))"
    by (rule isLocalhostHostname_iff)
next
  fix events events' r s u
  assume "sessionAt (runLogin P events initialLoginState) r = Some s \<and> url s = Some u"
  then show "\<exists>s'. sessionAt (runLogin P (events @ events') initialLoginState) r = Some s'
                  \<and> url s' = Some u"
    using url_sticky_reachable [OF h] by blast
next
  fix events events' events'' r s s' s''
  assume a: "sessionAt (runLogin P events initialLoginState) r = Some s
          \<and> sessionAt (runLogin P (events @ events') initialLoginState) r = Some s'
          \<and> sessionAt (runLogin P (events @ events' @ events'') initialLoginState) r = Some s''
          \<and> url s' \<noteq> url s"
  show "url s = None"
  proof (cases "url s")
    case (Some u)
    then show ?thesis
      using a url_sticky_reachable [OF h, of events r s u events'] by auto
  qed simp
  then obtain u where u: "url s' = Some u" using a by (cases "url s'") auto
  show "url s'' = url s'"
    using a u url_sticky_reachable [OF h, of "events @ events'" r s' u events''] by auto
qed

theorem login_url_sticky_witness:
  "hrefNonEmpty linuxX64
   \<and> sessionAt (runLogin linuxX64
        [StartLogin ''id-1'', ChildData 0 ''Open http://localhost:1455/cb or ''] initialLoginState) 0
      = Some \<lparr>id' = ''id-1'', process = Some \<lparr>killed = False\<rparr>, state = Running,
          output = ''Open http://localhost:1455/cb or '', url = None, error = None, exitCode = None\<rparr>
   \<and> url (appendLoginOutput linuxX64
        \<lparr>id' = ''id-1'', process = Some \<lparr>killed = False\<rparr>, state = Running,
          output = ''Open http://localhost:1455/cb or '', url = None, error = None, exitCode = None\<rparr>
        ''https://auth.openai.com/oauth?x=1. '')
      = extractFirstNonLocalhostUrl linuxX64
          ''Open http://localhost:1455/cb or https://auth.openai.com/oauth?x=1. ''
   \<and> extractFirstNonLocalhostUrl linuxX64
          ''Open http://localhost:1455/cb or https://auth.openai.com/oauth?x=1. ''
      = Some ''https://auth.openai.com/oauth?x=1''
   \<and> isLocalhostHostname ''app.LOCALHOST''
   \<and> \<not> isLocalhostHostname ''auth.openai.com''
   \<and> (\<exists>s'. sessionAt (runLogin linuxX64
          ([StartLogin ''id-1'', ChildData 0 ''Open http://localhost:1455/cb or '',
            ChildData 0 ''https://auth.openai.com/oauth?x=1. '']
           @ [ChildData 0 ''or https://chatgpt.com/help'', ChildClose 0 (Some 0)]) initialLoginState) 0
          = Some s' \<and> url s' = Some ''https://auth.openai.com/oauth?x=1'')"
proof -
  let ?s = "\<lparr>id' = ''id-1'', process = Some \<lparr>killed = False\<rparr>, state = Running,
          output = ''Open http://localhost:1455/cb or '', url = None, error = None, exitCode = None\<rparr>"
  note t = login_url_sticky [OF hrefNonEmpty_linuxX64]
  have s1: "sessionAt (runLogin linuxX64
        [StartLogin ''id-1'', ChildData 0 ''Open http://localhost:1455/cb or ''] initialLoginState) 0
      = Some ?s"
    by code_simp
  have u1: "url ?s = None" by simp
  have c: "stripAnsi ''https://auth.openai.com/oauth?x=1. '' = ''https://auth.openai.com/oauth?x=1. ''"
    by code_simp
  have e: "extractFirstNonLocalhostUrl linuxX64
          ''Open http://localhost:1455/cb or https://auth.openai.com/oauth?x=1. ''
      = Some ''https://auth.openai.com/oauth?x=1''"
    by code_simp
  have l: "toLowerCase (trim ''app.LOCALHOST'') = ''app.localhost''"
     "toLowerCase (trim ''auth.openai.com'') = ''auth.openai.com''"
    by code_simp+
  have s2: "sessionAt (runLogin linuxX64
          [StartLogin ''id-1'', ChildData 0 ''Open http://localhost:1455/cb or '',
            ChildData 0 ''https://auth.openai.com/oauth?x=1. ''] initialLoginState) 0
      = Some (?s\<lparr>output := ''Open http://localhost:1455/cb or https://auth.openai.com/oauth?x=1. '',
                  url := Some ''https://auth.openai.com/oauth?x=1''\<rparr>)"
    by code_simp
  have a: "url (appendLoginOutput linuxX64 ?s ''https://auth.openai.com/oauth?x=1. '')
      = extractFirstNonLocalhostUrl linuxX64
          ''Open http://localhost:1455/cb or https://auth.openai.com/oauth?x=1. ''"
    using t [THEN conjunct1, rule_format, OF conjI [OF s1 u1], of "''https://auth.openai.com/oauth?x=1. ''"] c
    by simp
  have lh: "isLocalhostHostname ''app.LOCALHOST''" "\<not> isLocalhostHostname ''auth.openai.com''"
    using t [THEN conjunct2, THEN conjunct2, THEN conjunct1, rule_format, of "''app.LOCALHOST''"]
      t [THEN conjunct2, THEN conjunct2, THEN conjunct1, rule_format, of "''auth.openai.com''"] l
    by (simp_all add: suffix_def)
  have st: "\<exists>s'. sessionAt (runLogin linuxX64
          ([StartLogin ''id-1'', ChildData 0 ''Open http://localhost:1455/cb or '',
            ChildData 0 ''https://auth.openai.com/oauth?x=1. '']
           @ [ChildData 0 ''or https://chatgpt.com/help'', ChildClose 0 (Some 0)]) initialLoginState) 0
          = Some s' \<and> url s' = Some ''https://auth.openai.com/oauth?x=1''"
    by (rule t [THEN conjunct2, THEN conjunct2, THEN conjunct2, THEN conjunct1, rule_format,
          OF conjI [OF s2]]) simp
  show ?thesis
    using hrefNonEmpty_linuxX64 s1 a e lh st by simp
qed

text \<open>
  Claim C5. Appending a chunk puts the stripped chunk behind the output. So for every
  session object, whatever happens afterwards, the output it had is a prefix of the
  output it has; and a poll of a session id after any events (none of them a start
  that reuses the id) returns an output that the output of the earlier poll is a
  prefix of.
\<close>

theorem login_output_monotone:
  "output (appendLoginOutput P s chunk) = output s @ stripAnsi chunk
   \<and> prefix (output s) (output (appendLoginOutput P s chunk))
   \<and> (\<forall>r s0. sessionAt st r = Some s0 \<longrightarrow>
         (\<exists>s1. sessionAt (runLogin P events st) r = Some s1 \<and> prefix (output s0) (output s1)))
   \<and> (\<forall>before sid a.
         st = runLogin P before initialLoginState \<and> StartLogin sid \<notin> set events
         \<and> getLoginSession sid st = Inr a \<longrightarrow>
         (\<exists>b. getLoginSession sid (runLogin P events st) = Inr b \<and> sessionId b = sessionId a
              \<and> prefix (resOutput a) (resOutput b)))"
proof (intro conjI allI impI)
  show "output (appendLoginOutput P s chunk) = output s @ stripAnsi chunk"
    by (rule appendLoginOutput_output)
  show "prefix (output s) (output (appendLoginOutput P s chunk))"
    by (simp add: appendLoginOutput_output)
next
  fix r s0 assume "sessionAt st r = Some s0"
  from run_output_url [OF this, of P events]
  show "\<exists>s1. sessionAt (runLogin P events st) r = Some s1 \<and> prefix (output s0) (output s1)"
    by blast
next
  fix before sid a
  assume a: "st = runLogin P before initialLoginState \<and> StartLogin sid \<notin> set events
         \<and> getLoginSession sid st = Inr a"
  then have "loginInv st" by (simp add: loginInv_reachable)
  then have wf: "wfLogin st" by (simp add: loginInv_def)
  from a have f: "StartLogin sid \<notin> set events" and g: "getLoginSession sid st = Inr a"
    by blast+
  show "\<exists>b. getLoginSession sid (runLogin P events st) = Inr b \<and> sessionId b = sessionId a
              \<and> prefix (resOutput a) (resOutput b)"
    by (rule poll_grows [OF wf f g])
qed

theorem login_output_monotone_witness:
  "getLoginSession ''id-1'' (runLogin linuxX64 [StartLogin ''id-1'', ChildData 0 ''Starting''] initialLoginState)
     = Inr \<lparr>sessionId = ''id-1'', resState = Running, resUrl = None, resOutput = ''Starting'',
            resError = None, resExitCode = None\<rparr>
   \<and> sessionAt (runLogin linuxX64 [StartLogin ''id-1'', ChildData 0 ''Starting''] initialLoginState) 0
     = Some ((newSession ''id-1'')\<lparr>output := ''Starting''\<rparr>)
   \<and> (\<exists>s1. sessionAt
           (runLogin linuxX64 [ChildData 0 '' login'', CancelLogin ''id-1'' KillSent, ChildClose 0 None, StartLogin ''id-2'']
              (runLogin linuxX64 [StartLogin ''id-1'', ChildData 0 ''Starting''] initialLoginState)) 0 = Some s1
         \<and> prefix ''Starting'' (output s1))
   \<and> (\<exists>b. getLoginSession ''id-1''
           (runLogin linuxX64 [ChildData 0 '' login'', CancelLogin ''id-1'' KillSent, ChildClose 0 None, StartLogin ''id-2'']
              (runLogin linuxX64 [StartLogin ''id-1'', ChildData 0 ''Starting''] initialLoginState)) = Inr b
         \<and> sessionId b = ''id-1'' \<and> prefix ''Starting'' (resOutput b))"
proof -
  let ?st = "runLogin linuxX64 [StartLogin ''id-1'', ChildData 0 ''Starting''] initialLoginState"
  let ?later = "[ChildData 0 '' login'', CancelLogin ''id-1'' KillSent, ChildClose 0 None, StartLogin ''id-2'']"
  note t = login_output_monotone [of linuxX64 "newSession ''id-1''" "''Starting''" ?st ?later]
  have g: "getLoginSession ''id-1'' ?st
     = Inr \<lparr>sessionId = ''id-1'', resState = Running, resUrl = None, resOutput = ''Starting'',
            resError = None, resExitCode = None\<rparr>"
    by code_simp
  have s: "sessionAt ?st 0 = Some ((newSession ''id-1'')\<lparr>output := ''Starting''\<rparr>)"
    by code_simp
  have f: "StartLogin ''id-1'' \<notin> set ?later"
    by simp
  show ?thesis
    using g s
      t [THEN conjunct2, THEN conjunct2, THEN conjunct1, rule_format, OF s]
      t [THEN conjunct2, THEN conjunct2, THEN conjunct2, rule_format, OF conjI [OF refl conjI [OF f g]]]
    by simp
qed

text \<open>
  Claim C6 fails on the code. Each chunk is stripped on its own, so an escape sequence
  that the child writes across two chunks is matched in neither: after the chunks
  \<open>ESC [ 3\<close> and \<open>1 m r e d\<close> the output that a poll returns is \<open>ESC [ 3 1 m r e d\<close>.
  It starts with the CSI sequence \<open>ESC [ 3 1 m\<close>, which \<open>ANSI_ESCAPE_REGEX\<close> matches
  there, and stripping the output as a whole, as \<open>extractFirstNonLocalhostUrl\<close> does
  for its scan, leaves \<open>red\<close>.
\<close>

theorem login_output_keeps_split_escape:
  "getLoginSession ''id-1''
     (runLogin linuxX64
        [StartLogin ''id-1'', ChildData 0 [CHR 0x1B, CHR ''['', CHR ''3''], ChildData 0 ''1mred'']
        initialLoginState)
     = Inr \<lparr>sessionId = ''id-1'', resState = Running, resUrl = None,
            resOutput = [CHR 0x1B, CHR ''['', CHR ''3'', CHR ''1'', CHR ''m'', CHR ''r'', CHR ''e'', CHR ''d''],
            resError = None, resExitCode = None\<rparr>
   \<and> firstMatch ANSI_ESCAPE_REGEX
        [CHR 0x1B, CHR ''['', CHR ''3'', CHR ''1'', CHR ''m'', CHR ''r'', CHR ''e'', CHR ''d''] = Some ''red''
   \<and> stripAnsi [CHR 0x1B, CHR ''['', CHR ''3'', CHR ''1'', CHR ''m'', CHR ''r'', CHR ''e'', CHR ''d''] = ''red''"
  by code_simp

lemma loginState_exhaustive: "state s \<in> {Running, Success, Error, Cancelled}"
  by (cases "state s") simp_all

lemma stripAnsi_whole_sequences:
  "stripAnsi (''a'' @ [CHR 0x1B] @ ''[1;31mb'' @ [CHR 0x1B] @ '']0;title'' @ [CHR 0x07] @ ''c'') = ''abc''"
  by code_simp

subsection \<open>One running login at a time, and cancelling\<close>

lemma activeAt_iff:
  "activeAt st r \<longleftrightarrow>
     (\<exists>s. sessionAt st r = Some s \<and> state s = Running \<and> (\<exists>p. process s = Some p \<and> \<not> killed p))"
  by (auto simp: activeAt_def isActive_def split: option.splits)

lemma startLogin_changed:
  assumes inv: "loginInv st" and ch: "snd (startLogin P sid st) \<noteq> st"
  shows "\<forall>r. \<not> activeAt st r"
    and "fst (startLogin P sid st) = Inr (toLoginSessionResponse (newSession sid))"
    and "objects (snd (startLogin P sid st)) =
           objects st @ [\<lparr>session = newSession sid, errorListener = True, closeListener = True\<rparr>]"
    and "getLoginSession sid (snd (startLogin P sid st)) = Inr (toLoginSessionResponse (newSession sid))"
proof -
  have none: "getActiveLoginSession st = None"
    using ch startLogin_cases [of P sid st] by blast
  show "\<forall>r. \<not> activeAt st r"
    using getActive_complete [OF inv] none by fastforce
  obtain path where path: "resolveBundledCodexCliPath P = Inr path"
    using ch startLogin_throw [OF none, of P _ sid] by (cases "resolveBundledCodexCliPath P") auto
  note c = startLogin_create [OF none path, of sid]
  show "fst (startLogin P sid st) = Inr (toLoginSessionResponse (newSession sid))" by (rule c)
  show "objects (snd (startLogin P sid st)) =
           objects st @ [\<lparr>session = newSession sid, errorListener = True, closeListener = True\<rparr>]"
    by (rule c)
  show "getLoginSession sid (snd (startLogin P sid st)) = Inr (toLoginSessionResponse (newSession sid))"
    by (simp add: getLoginSession_def c update_conv')
qed

text \<open>
  Claim C7, as the code has it. A login session counts as running when its state is
  running and it has a child process that is not killed; this is what
  \<open>getActiveLoginSession\<close> looks for. In every reachable login state at most one
  session object is running. If one is, \<open>startLogin\<close> changes nothing, so spawns no
  process, and returns the snapshot of that session. If \<open>startLogin\<close> changes the state,
  no session was running, and the change is one new session object under the id that
  \<^verbatim>\<open>crypto.randomUUID()\<close> returned, in state running, which is what the call returns
  and what a poll of that id returns.
\<close>

theorem startLogin_single_running:
  assumes reach: "st = runLogin P events initialLoginState"
  shows
    "(\<forall>r r'. activeAt st r \<and> activeAt st r' \<longrightarrow> r = r')
     \<and> (\<forall>r. activeAt st r \<longleftrightarrow>
          (\<exists>s. sessionAt st r = Some s \<and> state s = Running \<and> (\<exists>p. process s = Some p \<and> \<not> killed p)))
     \<and> (\<forall>r s. sessionAt st r = Some s \<and> state s = Running \<and> (\<exists>p. process s = Some p \<and> \<not> killed p) \<longrightarrow>
          startLogin P sid st = (Inr (toLoginSessionResponse s), st))
     \<and> (snd (startLogin P sid st) \<noteq> st \<longrightarrow>
          (\<forall>r. \<not> activeAt st r)
        \<and> fst (startLogin P sid st) = Inr (toLoginSessionResponse (newSession sid))
        \<and> objects (snd (startLogin P sid st)) =
             objects st @ [\<lparr>session = newSession sid, errorListener = True, closeListener = True\<rparr>]
        \<and> getLoginSession sid (snd (startLogin P sid st)) = Inr (toLoginSessionResponse (newSession sid)))"
proof -
  have inv: "loginInv st" unfolding reach by (rule loginInv_reachable)
  show ?thesis
  proof (intro conjI allI impI)
    fix r r' assume "activeAt st r \<and> activeAt st r'"
    then show "r = r'" using inv by (simp add: loginInv_def)
  next
    fix r
    show "activeAt st r \<longleftrightarrow>
          (\<exists>s. sessionAt st r = Some s \<and> state s = Running \<and> (\<exists>p. process s = Some p \<and> \<not> killed p))"
      by (rule activeAt_iff)
  next
    fix r s
    assume a: "sessionAt st r = Some s \<and> state s = Running \<and> (\<exists>p. process s = Some p \<and> \<not> killed p)"
    then have "activeAt st r" unfolding activeAt_iff by blast
    then have "getActiveLoginSession st = Some r" by (rule getActive_complete [OF inv])
    then have "startLogin P sid st = (Inr (toLoginSessionResponse (session (objects st ! r))), st)"
      by (rule startLogin_reuse)
    moreover have "s = session (objects st ! r)" using a by (simp add: sessionAt_Some)
    ultimately show "startLogin P sid st = (Inr (toLoginSessionResponse s), st)" by simp
  next
    assume ch: "snd (startLogin P sid st) \<noteq> st"
    note c = startLogin_changed [OF inv ch]
    fix r show "\<not> activeAt st r" using c(1) by simp
  next
    assume ch: "snd (startLogin P sid st) \<noteq> st"
    note c = startLogin_changed [OF inv ch]
    show "fst (startLogin P sid st) = Inr (toLoginSessionResponse (newSession sid))" by (rule c)
    show "objects (snd (startLogin P sid st)) =
             objects st @ [\<lparr>session = newSession sid, errorListener = True, closeListener = True\<rparr>]"
      by (rule c)
    show "getLoginSession sid (snd (startLogin P sid st)) = Inr (toLoginSessionResponse (newSession sid))"
      by (rule c)
  qed
qed

theorem startLogin_single_running_witness:
  "sessionAt (runLogin linuxX64 [StartLogin ''id-1'', ChildData 0 ''Starting''] initialLoginState) 0
     = Some ((newSession ''id-1'')\<lparr>output := ''Starting''\<rparr>)
   \<and> startLogin linuxX64 ''id-2'' (runLogin linuxX64 [StartLogin ''id-1'', ChildData 0 ''Starting''] initialLoginState)
     = (Inr \<lparr>sessionId = ''id-1'', resState = Running, resUrl = None, resOutput = ''Starting'',
             resError = None, resExitCode = None\<rparr>,
        runLogin linuxX64 [StartLogin ''id-1'', ChildData 0 ''Starting''] initialLoginState)
   \<and> snd (startLogin linuxX64 ''id-2''
        (runLogin linuxX64 [StartLogin ''id-1'', CancelLogin ''id-1'' KillSent] initialLoginState))
      \<noteq> runLogin linuxX64 [StartLogin ''id-1'', CancelLogin ''id-1'' KillSent] initialLoginState
   \<and> fst (startLogin linuxX64 ''id-2''
        (runLogin linuxX64 [StartLogin ''id-1'', CancelLogin ''id-1'' KillSent] initialLoginState))
      = Inr \<lparr>sessionId = ''id-2'', resState = Running, resUrl = None, resOutput = [],
              resError = None, resExitCode = None\<rparr>
   \<and> \<not> activeAt (runLogin linuxX64 [StartLogin ''id-1'', CancelLogin ''id-1'' KillSent] initialLoginState) 0"
proof -
  let ?st1 = "runLogin linuxX64 [StartLogin ''id-1'', ChildData 0 ''Starting''] initialLoginState"
  let ?st2 = "runLogin linuxX64 [StartLogin ''id-1'', CancelLogin ''id-1'' KillSent] initialLoginState"
  have s: "sessionAt ?st1 0 = Some ((newSession ''id-1'')\<lparr>output := ''Starting''\<rparr>)"
    by code_simp
  have r: "state ((newSession ''id-1'')\<lparr>output := ''Starting''\<rparr>) = Running
      \<and> (\<exists>p. process ((newSession ''id-1'')\<lparr>output := ''Starting''\<rparr>) = Some p \<and> \<not> killed p)"
    by (simp add: newSession_def)
  have ch: "snd (startLogin linuxX64 ''id-2'' ?st2) \<noteq> ?st2"
  proof
    assume "snd (startLogin linuxX64 ''id-2'' ?st2) = ?st2"
    then have "length (objects (snd (startLogin linuxX64 ''id-2'' ?st2))) = length (objects ?st2)"
      by simp
    moreover have "length (objects (snd (startLogin linuxX64 ''id-2'' ?st2))) = 2" by code_simp
    moreover have "length (objects ?st2) = 1" by code_simp
    ultimately show False by simp
  qed
  show ?thesis
    using s ch
      startLogin_single_running [OF refl, of linuxX64 "[StartLogin ''id-1'', ChildData 0 ''Starting'']" "''id-2''",
        THEN conjunct2, THEN conjunct2, THEN conjunct1, rule_format, OF conjI [OF s r]]
      startLogin_single_running [OF refl, of linuxX64 "[StartLogin ''id-1'', CancelLogin ''id-1'' KillSent]" "''id-2''",
        THEN conjunct2, THEN conjunct2, THEN conjunct2, rule_format, OF ch]
    by (simp add: toLoginSessionResponse_def newSession_def)
qed

text \<open>
  The claim as it was stated counts processes. \<open>cancelLogin\<close> only signals the child
  and sets the state, and a session that is cancelled is not running for
  \<open>startLogin\<close>: after a start, a cancel and a second start, two children have been
  spawned and neither has closed.
\<close>

theorem two_login_processes_counterexample:
  "childUnclosed (runLogin linuxX64
       [StartLogin ''id-1'', CancelLogin ''id-1'' KillSent, StartLogin ''id-2''] initialLoginState) 0
   \<and> childUnclosed (runLogin linuxX64
       [StartLogin ''id-1'', CancelLogin ''id-1'' KillSent, StartLogin ''id-2''] initialLoginState) 1
   \<and> sessionAt (runLogin linuxX64
       [StartLogin ''id-1'', CancelLogin ''id-1'' KillSent, StartLogin ''id-2''] initialLoginState) 0
      = Some \<lparr>id' = ''id-1'', process = Some \<lparr>killed = True\<rparr>, state = Cancelled,
               output = [], url = None, error = None, exitCode = None\<rparr>
   \<and> sessionAt (runLogin linuxX64
       [StartLogin ''id-1'', CancelLogin ''id-1'' KillSent, StartLogin ''id-2''] initialLoginState) 1
      = Some \<lparr>id' = ''id-2'', process = Some \<lparr>killed = False\<rparr>, state = Running,
               output = [], url = None, error = None, exitCode = None\<rparr>"
  by code_simp

text \<open>What the claim of a cancelled state gets right: output and the close of the child
  leave a cancelled state cancelled, and the close records the exit code.\<close>

lemma onClose_keeps_cancelled:
  assumes "sessionAt st r = Some s" "state s = Cancelled"
  shows "\<exists>s'. sessionAt (onClose r' code st) r = Some s' \<and> state s' = Cancelled
           \<and> (r' = r \<and> closeListener (objects st ! r) \<longrightarrow> exitCode s' = code)"
  using assms
  by (auto simp: sessionAt_def onClose_def Let_def nth_update_total split: if_splits)

lemma onData_keeps_state:
  assumes "sessionAt st r = Some s"
  shows "\<exists>s'. sessionAt (onData P r' chunk st) r = Some s' \<and> state s' = state s"
  using sessionAt_onData [OF assms, of P r' chunk] by (simp add: appendLoginOutput_fields)

lemma listenersInv_step: "listenersInv st \<Longrightarrow> listenersInv (loginStep P e st)"
proof (cases e)
  case (StartLogin sid)
  assume "listenersInv st"
  then show ?thesis using StartLogin
    by (auto simp: listenersInv_def startLogin_def Let_def nth_append split: option.splits sum.splits)
next
  case (GetLoginSession sid)
  assume "listenersInv st" then show ?thesis using GetLoginSession by simp
next
  case (CancelLogin sid d)
  assume "listenersInv st"
  then show ?thesis using CancelLogin
    by (cases d)
       (auto simp: listenersInv_def cancelLogin_def snd_cancelLoginResponse onError_def Let_def
          nth_update_total split: option.splits if_splits)
next
  case (ChildData r chunk)
  assume "listenersInv st"
  then show ?thesis using ChildData
    by (auto simp: listenersInv_def onData_def Let_def nth_update_total appendLoginOutput_fields)
next
  case (ChildError r m)
  assume "listenersInv st"
  then show ?thesis using ChildError
    by (auto simp: listenersInv_def onError_def Let_def nth_update_total)
next
  case (ChildClose r c)
  assume "listenersInv st"
  then show ?thesis using ChildClose
    by (auto simp: listenersInv_def onClose_def Let_def nth_update_total)
qed

lemma listenersInv_reachable: "listenersInv (runLogin P events initialLoginState)"
proof -
  have "listenersInv st \<Longrightarrow> listenersInv (runLogin P events st)" for st
    by (induction events arbitrary: st) (simp_all add: runLogin_Nil runLogin_Cons listenersInv_step)
  moreover have "listenersInv initialLoginState"
    by (simp add: listenersInv_def initialLoginState_def)
  ultimately show ?thesis by blast
qed

text \<open>So a cancel on a reachable state never throws.\<close>

lemma cancelLogin_returns:
  assumes "st = runLogin P events initialLoginState"
  shows "\<exists>result. fst (cancelLogin sid outcome st) = Inr result"
proof (cases "map_of (loginSessions st) sid")
  case None
  then show ?thesis by (simp add: cancelLogin_def)
next
  case (Some r)
  have "loginInv st" unfolding assms by (rule loginInv_reachable)
  then have "wfLogin st" by (simp add: loginInv_def)
  moreover have "r \<in> snd ` set (loginSessions st)"
    using Some by (metis map_of_SomeD image_eqI snd_conv)
  ultimately have lt: "r < length (objects st)" by (auto simp: wfLogin_def)
  have "listenersInv st" unfolding assms by (rule listenersInv_reachable)
  then have "process (session (objects st ! r)) \<noteq> None \<longrightarrow> errorListener (objects st ! r)"
    using lt by (simp add: listenersInv_def)
  then show ?thesis
    using Some
    by (cases outcome)
       (auto simp: cancelLogin_def cancelLoginResponse_def Let_def split: option.splits)
qed

lemma cancelLogin_cancels:
  assumes "wfLogin st" "map_of (loginSessions st) sid = Some r" "\<forall>message. outcome \<noteq> KillFailed message"
  shows "\<exists>s'. sessionAt (snd (cancelLogin sid outcome st)) r = Some s' \<and> state s' = Cancelled
           \<and> error s' = None"
proof -
  have "r \<in> snd ` set (loginSessions st)"
    using assms(2) by (metis map_of_SomeD image_eqI snd_conv)
  then have "r < length (objects st)" using assms(1) by (auto simp: wfLogin_def)
  then show ?thesis
    using assms(2,3)
    by (cases outcome)
       (auto simp: sessionAt_def cancelLogin_def cancelLoginResponse_def Let_def split: option.splits)
qed

text \<open>
  Claim C8 fails on the code. The listener of the child's \<^verbatim>\<open>error\<close> event sets the
  state to error whatever the state is, while the listener of \<^verbatim>\<open>close\<close> leaves a
  cancelled state alone. Node emits \<^verbatim>\<open>error\<close> on the child when it could not be
  killed: when the \<^verbatim>\<open>kill\<close> of \<open>cancelLogin\<close> fails, the listener runs inside the
  call, after the state was set to cancelled, so the call itself returns the session in
  state error, a poll finds it in state error, and when the child then exits with code
  0 the session is in state success. When the signal is sent, the session is cancelled
  and stays so over the close with code 0.
\<close>

theorem cancelled_overwritten_by_error:
  "fst (cancelLogin ''id-1'' (KillFailed ''kill EPERM'')
          (runLogin linuxX64 [StartLogin ''id-1''] initialLoginState))
     = Inr \<lparr>success = True, found = True,
            cancelSession = Some \<lparr>sessionId = ''id-1'', resState = Error, resUrl = None, resOutput = [],
              resError = Some ''[codex] Failed to start login flow: kill EPERM'', resExitCode = None\<rparr>\<rparr>
   \<and> getLoginSession ''id-1''
     (runLogin linuxX64 [StartLogin ''id-1'', CancelLogin ''id-1'' (KillFailed ''kill EPERM'')]
        initialLoginState)
     = Inr \<lparr>sessionId = ''id-1'', resState = Error, resUrl = None, resOutput = [],
            resError = Some ''[codex] Failed to start login flow: kill EPERM'', resExitCode = None\<rparr>
   \<and> getLoginSession ''id-1''
     (runLogin linuxX64 [StartLogin ''id-1'', CancelLogin ''id-1'' (KillFailed ''kill EPERM''),
         ChildClose 0 (Some 0)]
        initialLoginState)
     = Inr \<lparr>sessionId = ''id-1'', resState = Success, resUrl = None, resOutput = [],
            resError = None, resExitCode = Some 0\<rparr>
   \<and> getLoginSession ''id-1''
     (runLogin linuxX64 [StartLogin ''id-1'', CancelLogin ''id-1'' KillSent, ChildClose 0 (Some 0)]
        initialLoginState)
     = Inr \<lparr>sessionId = ''id-1'', resState = Cancelled, resUrl = None, resOutput = [],
            resError = None, resExitCode = Some 0\<rparr>"
  by code_simp

end
